theory Spec2Isabelle
  imports Complex_Main
begin

section \<open>Strings\<close>

text \<open>
  JavaScript strings are modelled as \<^typ>\<open>string\<close>: lists of code units below 256 (the
  Latin-1 range).  The built-in string methods the program calls are written out below with
  the results they have on that range.
\<close>

text \<open>\<^verbatim>\<open>s.startsWith(p)\<close>\<close>

fun startsWith :: "string \<Rightarrow> string \<Rightarrow> bool" where
  "startsWith s [] = True"
| "startsWith [] (p # ps) = False"
| "startsWith (c # cs) (p # ps) = (c = p \<and> startsWith cs ps)"

text \<open>\<^verbatim>\<open>s.includes(p)\<close>: \<open>p\<close> occurs in \<open>s\<close> at some position.\<close>

fun str_includes :: "string \<Rightarrow> string \<Rightarrow> bool" where
  "str_includes [] p = (p = [])"
| "str_includes (c # cs) p = (startsWith (c # cs) p \<or> str_includes cs p)"

text \<open>
  \<^verbatim>\<open>s.toLowerCase()\<close>: A-Z and the upper-case letters of Latin-1 move up by 32, which sets
  the bit of weight 32 of the code unit.
\<close>

definition is_upper :: "char \<Rightarrow> bool" where
  "is_upper c =
     (let n = (of_char c :: nat)
      in (65 \<le> n \<and> n \<le> 90) \<or> (192 \<le> n \<and> n \<le> 222 \<and> n \<noteq> 215))"

definition lower_char :: "char \<Rightarrow> char" where
  "lower_char c =
     (if is_upper c
      then (case c of Char b0 b1 b2 b3 b4 b5 b6 b7 \<Rightarrow> Char b0 b1 b2 b3 b4 True b6 b7)
      else c)"

definition toLowerCase :: "string \<Rightarrow> string" where
  "toLowerCase s = map lower_char s"

text \<open>
  \<^verbatim>\<open>s.trim()\<close> removes white space at both ends: tab, line feed, vertical tab, form feed,
  carriage return, space and no-break space.
\<close>

definition is_space :: "char \<Rightarrow> bool" where
  "is_space c = List.member [9, 10, 11, 12, 13, 32, 160 :: nat] (of_char c)"

definition trim :: "string \<Rightarrow> string" where
  "trim s = rev (dropWhile is_space (rev (dropWhile is_space s)))"

text \<open>\<^verbatim>\<open>s.split(sep)\<close> with a string separator.\<close>

function js_split :: "string \<Rightarrow> string \<Rightarrow> string list" where
  "js_split s sep =
     (if sep = [] then map (\<lambda>c. [c]) s
      else if s = [] then [[]]
      else if startsWith s sep then [] # js_split (drop (length sep) s) sep
      else (case js_split (tl s) sep of
              [] \<Rightarrow> [[hd s]]
            | piece # pieces \<Rightarrow> (hd s # piece) # pieces))"
  by pat_completeness auto
termination
  by (relation "measure (\<lambda>(s, sep). length s)") auto

declare js_split.simps [simp del]

text \<open>Template literals render numbers in decimal.\<close>

definition digit_char :: "nat \<Rightarrow> char" where
  "digit_char d = ''0123456789'' ! d"

fun show_nat :: "nat \<Rightarrow> string" where
  "show_nat n =
     (if n < 10 then [digit_char n]
      else show_nat (n div 10) @ [digit_char (n mod 10)])"

declare show_nat.simps [simp del]

definition show_int :: "int \<Rightarrow> string" where
  "show_int i = (if i < 0 then CHR ''-'' # show_nat (nat (- i)) else show_nat (nat i))"

section \<open>Numbers\<close>

text \<open>
  A JavaScript number is an IEEE 754 double, and the result of an arithmetic operation is
  the exact result rounded to the nearest double, a tie going to the even significand.
  \<open>exponent\<close> is the binary exponent of the binade of a value, found by halving or doubling
  within the range of a double and \<open>- 1022\<close> in the subnormal range, and \<open>ulp\<close> is the distance
  between neighbouring doubles there.  A result of magnitude
  \<open>2 ^ 1024\<close> or more is \<open>Infinity\<close> in the program; the model has no such value, and every
  statement about a rounded value bounds it below that.
\<close>

fun binade_up :: "nat \<Rightarrow> real \<Rightarrow> int" where
  "binade_up 0 x = 0"
| "binade_up (Suc n) x = (if x < 2 then 0 else 1 + binade_up n (x / 2))"

fun binade_down :: "nat \<Rightarrow> real \<Rightarrow> int" where
  "binade_down 0 x = 0"
| "binade_down (Suc n) x = (if 1 \<le> x then 0 else binade_down n (2 * x) - 1)"

definition exponent :: "real \<Rightarrow> int" where
  "exponent x = (if 1 \<le> \<bar>x\<bar> then binade_up 1023 \<bar>x\<bar> else binade_down 1022 \<bar>x\<bar>)"

definition ulp :: "real \<Rightarrow> real" where
  "ulp x = 2 powi (exponent x - 52)"

definition round_half_even :: "real \<Rightarrow> int" where
  "round_half_even x =
     (let n = \<lfloor>x\<rfloor> in
      if x - of_int n < 1 / 2 then n
      else if 1 / 2 < x - of_int n then n + 1
      else if even n then n else n + 1)"

definition fl :: "real \<Rightarrow> real" where
  "fl x = of_int (round_half_even (x / ulp x)) * ulp x"

text \<open>
  The operators \<^verbatim>\<open>*\<close> and \<^verbatim>\<open>+\<close> on numbers, and \<^verbatim>\<open>Math.pow\<close> with a whole exponent (taken as
  correctly rounded).
\<close>

definition js_times :: "real \<Rightarrow> real \<Rightarrow> real" where
  "js_times x y = fl (x * y)"

definition js_plus :: "real \<Rightarrow> real \<Rightarrow> real" where
  "js_plus x y = fl (x + y)"

definition Math_pow :: "real \<Rightarrow> nat \<Rightarrow> real" where
  "Math_pow b n = fl (b ^ n)"

section \<open>Configuration\<close>

definition COOKIE_MAX_AGE :: nat where "COOKIE_MAX_AGE = 31536000"
definition DEBOUNCE_DELAY :: nat where "DEBOUNCE_DELAY = 300"
definition AUTO_SAVE_DELAY :: nat where "AUTO_SAVE_DELAY = 2000"
definition MAX_RETRIES :: nat where "MAX_RETRIES = 3"
definition RETRY_DELAY_BASE :: real where "RETRY_DELAY_BASE = 1000"
definition REQUEST_TIMEOUT :: nat where "REQUEST_TIMEOUT = 10000"

section \<open>Values that cross the program's boundaries\<close>

text \<open>
  A thrown or returned error is a duck-typed object: the program reads its \<open>status\<close> and
  its \<open>message\<close>, and either may be absent (\<open>undefined\<close>).
\<close>

record js_error =
  status :: "int option"
  message :: "string option"

text \<open>
  Texts shown to the user begin or end with a pictograph outside Latin-1; a notice is the
  pictograph and the rest of the text.
\<close>

datatype glyph = CrossMark | WarningSign | CheckMark | Bell

type_synonym notice = "glyph \<times> string"

text \<open>A row of the \<open>posts\<close> table; \<open>likes\<close> may be \<open>null\<close>.\<close>

record post =
  post_id :: string
  post_title :: string
  post_content :: string
  post_likes :: "int option"
  post_created_at :: string

text \<open>The four remote calls of the modelled actions, and the \<open>{ data, error }\<close> answer.\<close>

datatype request =
    SelectLikes string
  | UpdateLikes string int
  | InsertPost string string
  | SelectAllPosts

datatype payload = DataNull | DataLikes "int option" | DataPosts "post list"

datatype response = Reply payload "js_error option" | NoReply

text \<open>
  A rendered post: the \<open>div.log-entry\<close> with its \<open>data-post-id\<close>, the markup assigned to
  its \<open>innerHTML\<close>, and the parts of the like button that \<open>updateLikeUI\<close> changes later.
\<close>

record post_element =
  dataset_postId :: string
  markup :: string
  likeCountText :: string
  likeBtnLiked :: bool
  heartPopped :: bool

datatype permission = Granted | Denied | Default

text \<open>What \<open>logError\<close> records (time stamp, user agent and URL are left out).\<close>

record error_info =
  info_type :: string
  info_operationName :: string
  info_message :: "string option"
  info_isOnline :: bool

section \<open>The page and its environment\<close>

text \<open>
  All state the program reads or writes.  \<open>backend\<close> answers a remote call from the log of
  calls issued so far (the call itself last), so any behaviour of the remote service is an
  instance.  \<open>contentTimer\<close> and \<open>titleTimer\<close> are the pending time-outs of the two debounced
  savers: the milliseconds left and the argument of the delayed call.  \<open>logContainer\<close> is
  \<open>None\<close> when the page has no \<open>.log-container\<close>; its children are listed top first.
  \<open>storageWrites\<close> lists the \<open>setItem\<close> calls made on the local storage, oldest first.
  \<open>marked\<close> is the Markdown renderer, by its \<open>breaks\<close> option.
\<close>

record world =
  isOnline :: bool
  cookieJar :: "(string \<times> string) list"
  localStorage :: "string \<rightharpoonup> string"
  storageWrites :: "(string \<times> string) list"
  postTitle :: "string option"
  postContent :: "string option"
  contentTimer :: "(nat \<times> string) option"
  titleTimer :: "(nat \<times> string) option"
  postModalHidden :: bool
  logContainer :: "post_element list option"
  alerts :: "notice list"
  errorLog :: "error_info list"
  notificationPermission :: "permission option"
  notifications :: "(notice \<times> string) list"
  requests :: "request list"
  backend :: "request list \<Rightarrow> response"
  randomCalls :: nat
  marked :: "bool \<Rightarrow> string \<Rightarrow> string"
  toLocaleDateString :: "string \<Rightarrow> string"
  today :: string

text \<open>
  An awaited operation settles with a value, settles with an error, or is still pending
  when the request time-out elapses.
\<close>

datatype 'a settled = Resolved 'a | Rejected js_error | Pending

type_synonym 'a async_op = "world \<Rightarrow> 'a settled \<times> world"

type_synonym 'a operation = "world \<Rightarrow> (js_error + 'a) \<times> world"

text \<open>
  What an observer of the retry wrapper sees: invocations of the operation, by attempt
  number, and calls of \<open>sleep\<close>, by the delay passed to it.
\<close>

datatype event = Invoke nat | Sleep real

fun invocations :: "event list \<Rightarrow> nat list" where
  "invocations [] = []"
| "invocations (Invoke k # evs) = k # invocations evs"
| "invocations (Sleep d # evs) = invocations evs"

text \<open>The delay slept immediately before attempt \<open>k\<close>, if there is one.\<close>

fun delay_before :: "nat \<Rightarrow> event list \<Rightarrow> real option" where
  "delay_before k (Sleep d # Invoke j # evs) =
     (if j = k then Some d else delay_before k (Invoke j # evs))"
| "delay_before k (ev # evs) = delay_before k evs"
| "delay_before k [] = None"

section \<open>ErrorHandler\<close>

definition retryableStatusCodes :: "int list" where
  "retryableStatusCodes = [408, 429, 500, 502, 503, 504]"

definition retryableMessages :: "string list" where
  "retryableMessages =
     [''network error'', ''timeout'', ''connection'', ''rate limit'', ''server error'']"

definition isRetryableError :: "world \<Rightarrow> js_error \<Rightarrow> bool" where
  "isRetryableError w err =
     (if \<not> isOnline w then True
      else if (case status err of
                 None \<Rightarrow> False
               | Some s \<Rightarrow> s \<noteq> 0 \<and> List.member retryableStatusCodes s) then True
      else (let errorMessage = toLowerCase (case message err of None \<Rightarrow> [] | Some m \<Rightarrow> m)
            in list_ex (\<lambda>msg. str_includes errorMessage msg) retryableMessages))"

text \<open>\<^verbatim>\<open>Math.random()\<close>: the next number of the environment's sequence \<open>rnd\<close>.\<close>

definition Math_random :: "(nat \<Rightarrow> real) \<Rightarrow> world \<Rightarrow> real \<times> world" where
  "Math_random rnd w = (rnd (randomCalls w), w\<lparr>randomCalls := Suc (randomCalls w)\<rparr>)"

text \<open>
  The loop of \<open>retryWithBackoff\<close> from attempt \<open>attempt\<close> on.  The result is the returned
  value or the thrown one (\<open>None\<close> is \<open>undefined\<close>, thrown when the loop body never ran).
\<close>

function retryFrom ::
  "(nat \<Rightarrow> real) \<Rightarrow> 'a operation \<Rightarrow> nat \<Rightarrow> nat \<Rightarrow> js_error option \<Rightarrow> world
     \<Rightarrow> (js_error option + 'a) \<times> world \<times> event list" where
  "retryFrom rnd operation maxRetries attempt lastError w =
     (if attempt \<le> maxRetries then
        (case operation w of
           (Inr v, w1) \<Rightarrow> (Inr v, w1, [Invoke attempt])
         | (Inl err, w1) \<Rightarrow>
             if attempt = maxRetries \<or> \<not> isRetryableError w1 err
             then (Inl (Some err), w1, [Invoke attempt])
             else (case Math_random rnd w1 of
                     (r, w2) \<Rightarrow>
                       let delay = js_plus (js_times RETRY_DELAY_BASE (Math_pow 2 (attempt - 1))) (js_times r 1000)
                       in (case retryFrom rnd operation maxRetries (attempt + 1) (Some err) w2 of
                             (res, w3, evs) \<Rightarrow> (res, w3, Invoke attempt # Sleep delay # evs))))
      else (Inl lastError, w, []))"
  by pat_completeness auto
termination
  by (relation "measure (\<lambda>(rnd, operation, maxRetries, attempt, lastError, w). Suc maxRetries - attempt)")
     auto

declare retryFrom.simps [simp del]

definition retryWithBackoff ::
  "(nat \<Rightarrow> real) \<Rightarrow> 'a operation \<Rightarrow> nat \<Rightarrow> world
     \<Rightarrow> (js_error option + 'a) \<times> world \<times> event list" where
  "retryWithBackoff rnd operation maxRetries w = retryFrom rnd operation maxRetries 1 None w"

text \<open>\<open>logError\<close> appends to the error log (which the program prints to the console).\<close>

definition logError :: "string \<Rightarrow> string \<Rightarrow> string option \<Rightarrow> world \<Rightarrow> world" where
  "logError type operationName msg w =
     w\<lparr>errorLog := errorLog w @
         [\<lparr>info_type = type, info_operationName = operationName,
           info_message = msg, info_isOnline = isOnline w\<rparr>]\<rparr>"

definition alert :: "notice \<Rightarrow> world \<Rightarrow> world" where
  "alert n w = w\<lparr>alerts := alerts w @ [n]\<rparr>"

text \<open>
  \<open>withTimeout\<close> races the operation against a timer: an operation still pending when the
  timer fires appears as a failure whose message names the operation and the time-out.
  What a timed-out operation does later in the background is outside the model.
\<close>

definition withTimeout :: "'a async_op \<Rightarrow> nat \<Rightarrow> string \<Rightarrow> 'a operation" where
  "withTimeout promise timeout operationName w =
     (case promise w of
        (Resolved v, w1) \<Rightarrow> (Inr v, w1)
      | (Rejected err, w1) \<Rightarrow> (Inl err, w1)
      | (Pending, w1) \<Rightarrow>
          (Inl \<lparr>status = None,
                message = Some (operationName @ '' timed out after '' @ show_nat timeout @ ''ms'')\<rparr>,
           w1))"

text \<open>Reading a property of \<open>undefined\<close> throws a \<open>TypeError\<close>.\<close>

definition typeError :: "string \<Rightarrow> js_error" where
  "typeError what = \<lparr>status = None, message = Some (''Cannot read properties of '' @ what)\<rparr>"

text \<open>
  \<open>getUserFriendlyErrorMessage\<close> calls \<open>error.message.includes\<close> without a guard, so an
  error without a message makes it throw once the offline test has not returned.
\<close>

definition getUserFriendlyErrorMessage :: "world \<Rightarrow> js_error \<Rightarrow> string \<Rightarrow> js_error + string" where
  "getUserFriendlyErrorMessage w err operationName =
     (if \<not> isOnline w
      then Inr ''You appear to be offline. Please check your internet connection.''
      else (case message err of
              None \<Rightarrow> Inl (typeError ''undefined (reading includes)'')
            | Some m \<Rightarrow>
                if str_includes m ''timeout''
                then Inr (operationName @ '' is taking too long. Please try again.'')
                else if str_includes m ''rate limit''
                then Inr ''Too many requests. Please wait a moment and try again.''
                else if (case status err of None \<Rightarrow> False | Some s \<Rightarrow> 500 \<le> s)
                then Inr ''Server error. Please try again later.''
                else if status err = Some 401 \<or> status err = Some 403
                then Inr ''Authentication error. Please log in again.''
                else Inr (operationName @ '' failed. Please try again.'')))"

text \<open>
  \<open>safeOperation\<close>: the result is the operation's value, \<open>None\<close> for \<open>null\<close>, or \<open>Inl\<close> when
  the \<open>catch\<close> block itself throws.
\<close>

definition safeOperation ::
  "(nat \<Rightarrow> real) \<Rightarrow> 'a async_op \<Rightarrow> string \<Rightarrow> bool \<Rightarrow> world
     \<Rightarrow> (js_error + 'a option) \<times> world \<times> event list" where
  "safeOperation rnd operation operationName showUserError w =
     (case retryWithBackoff rnd (withTimeout operation REQUEST_TIMEOUT operationName) MAX_RETRIES w of
        (Inr v, w1, evs) \<Rightarrow> (Inr (Some v), w1, evs)
      | (Inl None, w1, evs) \<Rightarrow> (Inl (typeError ''undefined (reading message)''), w1, evs)
      | (Inl (Some err), w1, evs) \<Rightarrow>
          (let w2 = logError ''Safe Operation Error'' operationName (message err) w1
           in if showUserError
              then (case getUserFriendlyErrorMessage w2 err operationName of
                      Inl thrown \<Rightarrow> (Inl thrown, w2, evs)
                    | Inr userMessage \<Rightarrow> (Inr None, alert (CrossMark, userMessage) w2, evs))
              else (Inr None, w2, evs)))"

section \<open>Utils\<close>

text \<open>\<open>validateFields\<close> over the entries of its argument, in order; a missing element's value is \<open>None\<close>.\<close>

fun validateFields :: "(string \<times> string option) list \<Rightarrow> world \<Rightarrow> bool \<times> world" where
  "validateFields [] w = (True, w)"
| "validateFields ((fieldName, v) # entries) w =
     (if (case v of None \<Rightarrow> True | Some text \<Rightarrow> text = [] \<or> trim text = [])
      then (False, alert (WarningSign, fieldName @ '' cannot be empty!'') w)
      else validateFields entries w)"

text \<open>\<open>clearInputs(postTitle, postContent)\<close> and \<open>toggleElement(postModal, show)\<close>.\<close>

definition clearInputs :: "world \<Rightarrow> world" where
  "clearInputs w =
     w\<lparr>postTitle := map_option (\<lambda>v. []) (postTitle w),
       postContent := map_option (\<lambda>v. []) (postContent w)\<rparr>"

definition toggleElement_postModal :: "bool \<Rightarrow> world \<Rightarrow> world" where
  "toggleElement_postModal visible w = w\<lparr>postModalHidden := \<not> visible\<rparr>"

section \<open>CookieManager\<close>

text \<open>
  The browser's cookie store for the page is a list of name-value pairs, oldest first; a
  cookie set without an equals sign has the empty name.  Reading \<open>document.cookie\<close> joins
  them with \<open>; \<close>, a cookie with the empty name as its value alone.
\<close>

fun join :: "string \<Rightarrow> string list \<Rightarrow> string" where
  "join sep [] = []"
| "join sep [x] = x"
| "join sep (x # y # ys) = x @ sep @ join sep (y # ys)"

definition cookie_row :: "string \<times> string \<Rightarrow> string" where
  "cookie_row c = (if fst c = [] then snd c else fst c @ ''='' @ snd c)"

definition document_cookie :: "world \<Rightarrow> string" where
  "document_cookie w = join ''; '' (map cookie_row (cookieJar w))"

definition is_wsp :: "char \<Rightarrow> bool" where
  "is_wsp c = (c = CHR '' '' \<or> c = CHR 0x09)"

definition trim_wsp :: "string \<Rightarrow> string" where
  "trim_wsp s = rev (dropWhile is_wsp (rev (dropWhile is_wsp s)))"

text \<open>Control characters other than the tab.\<close>

definition is_ctl :: "char \<Rightarrow> bool" where
  "is_ctl c = (let n = (of_char c :: nat) in (n < 32 \<and> n \<noteq> 9) \<or> n = 127)"

definition is_digit :: "char \<Rightarrow> bool" where
  "is_digit c = (let n = (of_char c :: nat) in 48 \<le> n \<and> n \<le> 57)"

text \<open>
  An attribute of a cookie string: its name, lower-cased, and its value.  The value of a
  \<open>max-age\<close> attribute counts when it is an optional minus sign and digits, at most 1024
  characters; the last such attribute decides, and a value that is not positive expires
  the cookie at once.
\<close>

definition cookie_av :: "string \<Rightarrow> string \<times> string" where
  "cookie_av s =
     (toLowerCase (trim_wsp (takeWhile (\<lambda>c. c \<noteq> CHR ''='') s)),
      trim_wsp (drop 1 (dropWhile (\<lambda>c. c \<noteq> CHR ''='') s)))"

definition delta_seconds :: "string \<Rightarrow> bool" where
  "delta_seconds v =
     (length v \<le> 1024
      \<and> (case v of
            [] \<Rightarrow> False
          | c # cs \<Rightarrow> (is_digit c \<or> (c = CHR ''-'' \<and> cs \<noteq> [])) \<and> list_all is_digit cs))"

definition expires_at_once :: "string \<Rightarrow> bool" where
  "expires_at_once s =
     (case filter (\<lambda>av. fst av = ''max-age'' \<and> delta_seconds (snd av))
             (map cookie_av (drop 1 (js_split s '';''))) of
        [] \<Rightarrow> False
      | avs \<Rightarrow> hd (snd (last avs)) = CHR ''-'' \<or> list_all (\<lambda>c. c = CHR ''0'') (snd (last avs)))"

text \<open>
  Assigning a string to \<open>document.cookie\<close>.  A string with a control character is ignored.
  The part before the first semicolon is the cookie: split at its first equals sign, or
  all of it the value when there is none, both sides trimmed of spaces and tabs; it is
  ignored when both are empty or together longer than 4096.  A cookie that expires at once
  removes the cookie of its name; otherwise it takes the place of the cookie of its name
  or is added as the newest.  Cookies that do not expire at once stay: the model has no
  clock and no limit on the number of cookies.  The attributes \<open>expires\<close>, \<open>domain\<close>, \<open>path\<close>,
  \<open>secure\<close>, \<open>httponly\<close> and \<open>samesite\<close> are not interpreted; the program writes \<open>path=/\<close> only.
\<close>

definition store_cookie :: "string \<Rightarrow> (string \<times> string) list \<Rightarrow> (string \<times> string) list" where
  "store_cookie s jar =
     (if list_ex is_ctl s then jar
      else
        (let pair = takeWhile (\<lambda>c. c \<noteq> CHR '';'') s;
             name = (if CHR ''='' \<in> set pair then trim_wsp (takeWhile (\<lambda>c. c \<noteq> CHR ''='') pair) else []);
             val = (if CHR ''='' \<in> set pair then trim_wsp (drop 1 (dropWhile (\<lambda>c. c \<noteq> CHR ''='') pair))
                    else trim_wsp pair)
         in if (name = [] \<and> val = []) \<or> 4096 < length name + length val then jar
            else if expires_at_once s then filter (\<lambda>c. fst c \<noteq> name) jar
            else if list_ex (\<lambda>c. fst c = name) jar
            then map (\<lambda>c. if fst c = name then (name, val) else c) jar
            else jar @ [(name, val)]))"

definition document_cookie_assign :: "string \<Rightarrow> world \<Rightarrow> world" where
  "document_cookie_assign s w = w\<lparr>cookieJar := store_cookie s (cookieJar w)\<rparr>"

definition CookieManager_set :: "string \<Rightarrow> string \<Rightarrow> nat \<Rightarrow> world \<Rightarrow> world" where
  "CookieManager_set name val maxAge w =
     document_cookie_assign (name @ ''='' @ val @ ''; max-age='' @ show_nat maxAge @ ''; path=/'') w"

definition CookieManager_get :: "string \<Rightarrow> world \<Rightarrow> string option" where
  "CookieManager_get name w =
     (case find (\<lambda>row. startsWith row (name @ ''='')) (js_split (document_cookie w) ''; '') of
        None \<Rightarrow> None
      | Some cookie \<Rightarrow>
          (let parts = js_split cookie ''=''
           in if 1 < length parts then Some (parts ! 1) else None))"

definition hasLiked :: "string \<Rightarrow> world \<Rightarrow> bool" where
  "hasLiked postId w = (CookieManager_get (''liked_'' @ postId) w = Some ''true'')"

section \<open>NotificationManager\<close>

text \<open>
  \<open>send\<close> takes a title and a body.  It shows the notification at once only when permission is already granted; the
  answer to a permission request arrives later and is not modelled.
\<close>

definition NotificationManager_send :: "notice \<times> string \<Rightarrow> world \<Rightarrow> world" where
  "NotificationManager_send n w =
     (case notificationPermission w of
        Some Granted \<Rightarrow> w\<lparr>notifications := notifications w @ [n]\<rparr>
      | _ \<Rightarrow> w)"

section \<open>UIManager\<close>

text \<open>
  \<open>escapeHtml\<close> sets the text as a node's \<open>textContent\<close> and reads \<open>innerHTML\<close> back: the
  serialisation of a text node replaces the ampersand, the no-break space and the two
  angle brackets.
\<close>

definition escape_unit :: "char \<Rightarrow> string" where
  "escape_unit c =
     (if c = CHR ''&'' then ''&amp;''
      else if c = CHR ''<'' then ''&lt;''
      else if c = CHR ''>'' then ''&gt;''
      else if c = CHR 0xA0 then ''&nbsp;''
      else [c])"

definition escapeHtml :: "string \<Rightarrow> string" where
  "escapeHtml text = concat (map escape_unit text)"

text \<open>
  \<open>encodeURIComponent\<close>: unreserved characters stay, every other code unit becomes the
  percent-escaped bytes of its UTF-8 encoding (one byte below 128, two bytes from 128 on).
\<close>

definition uri_unreserved :: "char \<Rightarrow> bool" where
  "uri_unreserved c =
     (c \<in> set (''ABCDEFGHIJKLMNOPQRSTUVWXYZabcdefghijklmnopqrstuvwxyz0123456789-_.!~*()''
                @ [CHR 0x27]))"

definition hex_digit :: "nat \<Rightarrow> char" where
  "hex_digit d = ''0123456789ABCDEF'' ! d"

definition percent :: "nat \<Rightarrow> string" where
  "percent byte = [CHR ''%'', hex_digit (byte div 16), hex_digit (byte mod 16)]"

definition encode_unit :: "char \<Rightarrow> string" where
  "encode_unit c =
     (let n = (of_char c :: nat)
      in if uri_unreserved c then [c]
         else if n < 128 then percent n
         else percent (192 + n div 64) @ percent (128 + n mod 64))"

definition encodeURIComponent :: "string \<Rightarrow> string" where
  "encodeURIComponent s = concat (map encode_unit s)"




definition dq :: string where "dq = [CHR 0x22]"
definition sq :: string where "sq = [CHR 0x27]"
definition nl :: string where "nl = [CHR 0x0A]"

definition heart_icon :: string where
  "heart_icon =
     ''        <svg class='' @ dq @ ''heart-icon'' @ dq @ '' viewBox='' @ dq @ ''0 0 24 24'' @ dq @ ''>'' @ nl @
     ''          <path d='' @ dq @ ''M12 21.35l-1.45-1.32C5.4 15.36 2 12.28 2 8.5'' @ nl @
     ''                   2 5.42 4.42 3 7.5 3c1.74 0 3.41 0.81 4.5 2.09'' @ nl @
     ''                   C13.09 3.81 14.76 3 16.5 3'' @ nl @
     ''                   19.58 3 22 5.42 22 8.5'' @ nl @
     ''                   c0 3.78-3.4 6.86-8.55 11.54L12 21.35z'' @ dq @ nl @
     ''                  />'' @ nl @
     ''        </svg>'' @ nl"

definition createLikeButton :: "string \<Rightarrow> bool \<Rightarrow> int \<Rightarrow> string" where
  "createLikeButton postId liked likeCount =
     nl @ ''      <button class='' @ dq @ ''likeBtn '' @ (if liked then ''liked'' else []) @ dq @
     '' onclick='' @ dq @ ''PostManager.likePost('' @ sq @ postId @ sq @ '')'' @ dq @ '' '' @
     (if liked then ''disabled'' else []) @ ''>'' @ nl @
     heart_icon @
     ''        <span class='' @ dq @ ''likecounter '' @ (if liked then ''liked'' else []) @ dq @
     '' id='' @ dq @ ''like-count-'' @ postId @ dq @ ''>'' @ show_int likeCount @ ''</span>'' @ nl @
     ''      </button>'' @ nl @ ''    ''"

definition editButton_html :: string where
  "editButton_html =
     ''<button class='' @ dq @ ''editBtn'' @ dq @ '' onclick='' @ dq @ ''PostManager.editPost(this)'' @ dq @
     ''><i class='' @ dq @ ''bi bi-pencil-fill'' @ dq @ ''></i> Edit</button>''"

definition deleteButton_html :: string where
  "deleteButton_html =
     ''<button class='' @ dq @ ''deleteBtn'' @ dq @ '' onclick='' @ dq @ ''PostManager.deletePost(this)'' @ dq @
     ''><i class='' @ dq @ ''bi bi-trash-fill'' @ dq @ ''></i> Delete</button>''"

text \<open>
  The string \<open>addPostToUI\<close> assigns to \<open>innerHTML\<close>, from its escaped title, encoded source,
  rendered content, escaped date and the buttons.  (The shorter copy of the program in
  \<open>script.js\<close> has the same template without the line of the edit and delete buttons.)
\<close>

definition post_markup :: "string \<Rightarrow> string \<Rightarrow> string \<Rightarrow> string \<Rightarrow> string \<Rightarrow> string \<Rightarrow> string \<Rightarrow> string" where
  "post_markup escTitle encContent renderedContent escDate likeButton editButton deleteButton =
     nl @ ''      <h2>'' @ escTitle @ ''</h2>'' @ nl @
     ''      <p data-md='' @ dq @ encContent @ dq @ ''>'' @ renderedContent @ ''</p>'' @ nl @
     ''      <span class='' @ dq @ ''date'' @ dq @ ''>'' @ escDate @ ''</span>'' @ nl @
     ''      '' @ likeButton @ nl @
     ''      '' @ editButton @ '' '' @ deleteButton @ nl @ ''    ''"

text \<open>
  The element \<open>addPostToUI\<close> creates, and \<open>addPostToUI\<close> itself: nothing happens without a
  \<open>.log-container\<close>, otherwise the new element is prepended to its children.
\<close>

definition createPostElement :: "world \<Rightarrow> string \<Rightarrow> string \<Rightarrow> string \<Rightarrow> bool \<Rightarrow> string \<Rightarrow> int \<Rightarrow> post_element" where
  "createPostElement w ttl content date showDeleteBtn postId likeCount =
     (let liked = hasLiked postId w;
          likeButton = createLikeButton postId liked likeCount;
          editButton = (if showDeleteBtn then editButton_html else []);
          deleteButton = (if showDeleteBtn then deleteButton_html else []);
          renderedContent = marked w True content
      in \<lparr>dataset_postId = postId,
          markup = post_markup (escapeHtml ttl) (encodeURIComponent content) renderedContent
                     (escapeHtml date) likeButton editButton deleteButton,
          likeCountText = show_int likeCount,
          likeBtnLiked = liked,
          heartPopped = False\<rparr>)"

definition addPostToUI :: "string \<Rightarrow> string \<Rightarrow> string \<Rightarrow> bool \<Rightarrow> string \<Rightarrow> int \<Rightarrow> world \<Rightarrow> world" where
  "addPostToUI ttl content date showDeleteBtn postId likeCount w =
     (case logContainer w of
        None \<Rightarrow> w
      | Some children \<Rightarrow>
          w\<lparr>logContainer :=
              Some (createPostElement w ttl content date showDeleteBtn postId likeCount # children)\<rparr>)"













section \<open>PostManager\<close>

text \<open>A remote call is logged and answered by the service.\<close>

definition remote :: "request \<Rightarrow> world \<Rightarrow> response \<times> world" where
  "remote rq w = (let issued = requests w @ [rq] in (backend w issued, w\<lparr>requests := issued\<rparr>))"

fun update_first :: "('a \<Rightarrow> bool) \<Rightarrow> ('a \<Rightarrow> 'a) \<Rightarrow> 'a list \<Rightarrow> 'a list" where
  "update_first P f [] = []"
| "update_first P f (x # xs) = (if P x then f x # xs else x # update_first P f xs)"

text \<open>
  \<open>updateLikeUI\<close> changes the first element with id \<open>like-count-<postId>\<close>, which is the
  counter of the first rendered post with that id, and the button around it.
\<close>

definition updateLikeUI :: "string \<Rightarrow> int \<Rightarrow> world \<Rightarrow> world" where
  "updateLikeUI postId newLikes w =
     w\<lparr>logContainer :=
         map_option
           (update_first (\<lambda>el. dataset_postId el = postId)
              (\<lambda>el. el\<lparr>likeCountText := show_int newLikes, likeBtnLiked := True, heartPopped := True\<rparr>))
           (logContainer w)\<rparr>"

text \<open>The function \<open>likePost\<close> hands to \<open>safeOperation\<close>.\<close>

definition likePost_operation :: "string \<Rightarrow> bool async_op" where
  "likePost_operation postId w =
     (if hasLiked postId w then (Resolved False, w)
      else (case remote (SelectLikes postId) w of
              (NoReply, w1) \<Rightarrow> (Pending, w1)
            | (Reply data err, w1) \<Rightarrow>
                (case err of
                   Some e \<Rightarrow> (Rejected e, w1)
                 | None \<Rightarrow>
                     (case data of
                        DataNull \<Rightarrow> (Rejected \<lparr>status = None, message = Some ''Post not found''\<rparr>, w1)
                      | _ \<Rightarrow>
                          (let newLikes = (case data of DataLikes (Some n) \<Rightarrow> n | _ \<Rightarrow> 0) + 1
                           in (case remote (UpdateLikes postId newLikes) w1 of
                                 (NoReply, w2) \<Rightarrow> (Pending, w2)
                               | (Reply data2 updateError, w2) \<Rightarrow>
                                   (case updateError of
                                      Some e \<Rightarrow> (Rejected e, w2)
                                    | None \<Rightarrow>
                                        (Resolved True,
                                         CookieManager_set (''liked_'' @ postId) ''true'' COOKIE_MAX_AGE
                                           (updateLikeUI postId newLikes w2)))))))))"

text \<open>The last line of each action: \<open>return result !== null\<close>.\<close>

definition not_null ::
  "(js_error + 'a option) \<times> world \<times> event list \<Rightarrow> (js_error + bool) \<times> world \<times> event list" where
  "not_null r =
     (case r of
        (Inl thrown, w, evs) \<Rightarrow> (Inl thrown, w, evs)
      | (Inr result, w, evs) \<Rightarrow> (Inr (result \<noteq> None), w, evs))"

definition likePost :: "(nat \<Rightarrow> real) \<Rightarrow> string \<Rightarrow> world \<Rightarrow> (js_error + bool) \<times> world \<times> event list" where
  "likePost rnd postId w = not_null (safeOperation rnd (likePost_operation postId) ''Like Post'' True w)"

definition submitPost_operation :: "post async_op" where
  "submitPost_operation w =
     (let ttl = postTitle w; content = postContent w
      in (case validateFields [(''Title'', ttl), (''Content'', content)] w of
            (False, w1) \<Rightarrow> (Rejected \<lparr>status = None, message = Some ''Invalid post data provided''\<rparr>, w1)
          | (True, w1) \<Rightarrow>
              (case remote (InsertPost (trim (case ttl of None \<Rightarrow> [] | Some t \<Rightarrow> t))
                                       (trim (case content of None \<Rightarrow> [] | Some c \<Rightarrow> c))) w1 of
                 (NoReply, w2) \<Rightarrow> (Pending, w2)
               | (Reply data err, w2) \<Rightarrow>
                   (case err of
                      Some e \<Rightarrow> (Rejected e, w2)
                    | None \<Rightarrow>
                        (case data of
                           DataNull \<Rightarrow> (Rejected (typeError ''null (reading 0)''), w2)
                         | _ \<Rightarrow>
                             (let w3 = alert (CheckMark, ''Post added successfully!'') w2;
                                  w4 = NotificationManager_send
                                         ((Bell, ''New Post''), (case ttl of None \<Rightarrow> [] | Some t \<Rightarrow> t)) w3;
                                  w5 = toggleElement_postModal False (clearInputs w4)
                              in (case data of
                                    DataPosts (newPost # others) \<Rightarrow>
                                      (Resolved newPost,
                                       addPostToUI (post_title newPost) (post_content newPost) (today w5)
                                         True (post_id newPost) 0 w5)
                                  | _ \<Rightarrow> (Rejected (typeError ''undefined (reading title)''), w5))))))))"

definition submitPost :: "(nat \<Rightarrow> real) \<Rightarrow> world \<Rightarrow> (js_error + bool) \<times> world \<times> event list" where
  "submitPost rnd w = not_null (safeOperation rnd submitPost_operation ''Submit Post'' True w)"

section \<open>App\<close>

definition loadPosts_operation :: "bool \<Rightarrow> post list async_op" where
  "loadPosts_operation isLoggedIn w =
     (case remote SelectAllPosts w of
        (NoReply, w1) \<Rightarrow> (Pending, w1)
      | (Reply data err, w1) \<Rightarrow>
          (case err of
             Some e \<Rightarrow> (Rejected e, w1)
           | None \<Rightarrow>
               (case data of
                  DataNull \<Rightarrow> (Rejected (typeError ''null (reading length)''), w1)
                | DataLikes l \<Rightarrow> (Rejected \<lparr>status = None, message = Some ''data.forEach is not a function''\<rparr>, w1)
                | DataPosts ps \<Rightarrow>
                    (Resolved ps,
                     fold (\<lambda>p v. addPostToUI (post_title p) (post_content p)
                                    (toLocaleDateString v (post_created_at p)) isLoggedIn (post_id p)
                                    (case post_likes p of None \<Rightarrow> 0 | Some n \<Rightarrow> n) v)
                          ps w1))))"

definition loadPosts :: "(nat \<Rightarrow> real) \<Rightarrow> bool \<Rightarrow> world \<Rightarrow> (js_error + bool) \<times> world \<times> event list" where
  "loadPosts rnd isLoggedIn w = not_null (safeOperation rnd (loadPosts_operation isLoggedIn) ''Load Posts'' True w)"

section \<open>Auto-save\<close>

definition setItem :: "string \<Rightarrow> string \<Rightarrow> world \<Rightarrow> world" where
  "setItem key v w =
     w\<lparr>localStorage := (localStorage w)(key \<mapsto> v), storageWrites := storageWrites w @ [(key, v)]\<rparr>"

definition removeItem :: "string \<Rightarrow> world \<Rightarrow> world" where
  "removeItem key w = w\<lparr>localStorage := (localStorage w)(key := None)\<rparr>"

text \<open>
  A debounced function keeps one pending time-out.  Calling it clears the pending one and
  sets a new one for the full delay with the new argument.
\<close>

definition debounce_call :: "nat \<Rightarrow> 'a \<Rightarrow> (nat \<times> 'a) option \<Rightarrow> (nat \<times> 'a) option" where
  "debounce_call delay args pending = Some (delay, args)"

text \<open>The \<open>input\<close> listener of \<open>createAutoSave\<close>, on the element's current value.\<close>

definition handleInput :: "string \<Rightarrow> (nat \<times> string) option \<Rightarrow> (nat \<times> string) option" where
  "handleInput v pending =
     (if trim v \<noteq> [] then debounce_call AUTO_SAVE_DELAY v pending else pending)"

text \<open>Time passing: a pending time-out fires once its delay has elapsed.\<close>

definition advance :: "nat \<Rightarrow> (nat \<times> 'a) option \<Rightarrow> 'a option \<times> (nat \<times> 'a) option" where
  "advance d pending =
     (case pending of
        None \<Rightarrow> (None, None)
      | Some (left, args) \<Rightarrow> if left \<le> d then (Some args, None) else (None, Some (left - d, args)))"

text \<open>
  What the page does, once \<open>setupAutoSave\<close> has run, on an edit of a field (the new value
  is in the field when the \<open>input\<close> event fires), on a focus, and when time passes with no
  other event.  Listeners exist only on elements that exist.
\<close>

datatype ui_event = InputContent string | InputTitle string | FocusContent | FocusTitle | Elapse nat

fun dispatch :: "ui_event \<Rightarrow> world \<Rightarrow> world" where
  "dispatch (InputContent v) w =
     (case postContent w of
        None \<Rightarrow> w
      | Some old \<Rightarrow> w\<lparr>postContent := Some v, contentTimer := handleInput v (contentTimer w)\<rparr>)"
| "dispatch (InputTitle v) w =
     (case postTitle w of
        None \<Rightarrow> w
      | Some old \<Rightarrow> w\<lparr>postTitle := Some v, titleTimer := handleInput v (titleTimer w)\<rparr>)"
| "dispatch FocusContent w =
     (case postContent w of
        None \<Rightarrow> w
      | Some v \<Rightarrow>
          (case localStorage w ''draft_post_content'' of
             None \<Rightarrow> w
           | Some draft \<Rightarrow> if draft \<noteq> [] \<and> trim v = [] then w\<lparr>postContent := Some draft\<rparr> else w))"
| "dispatch FocusTitle w =
     (case postTitle w of
        None \<Rightarrow> w
      | Some v \<Rightarrow>
          (case localStorage w ''draft_post_title'' of
             None \<Rightarrow> w
           | Some draft \<Rightarrow> if draft \<noteq> [] \<and> trim v = [] then w\<lparr>postTitle := Some draft\<rparr> else w))"
| "dispatch (Elapse d) w =
     (case advance d (contentTimer w) of
        (firedContent, contentLeft) \<Rightarrow>
          (case advance d (titleTimer w) of
             (firedTitle, titleLeft) \<Rightarrow>
               (let w1 = (case firedContent of
                            None \<Rightarrow> w
                          | Some txt \<Rightarrow> setItem ''draft_post_content'' txt w);
                    w2 = (case firedTitle of
                            None \<Rightarrow> w1
                          | Some txt \<Rightarrow> setItem ''draft_post_title'' txt w1)
                in w2\<lparr>contentTimer := contentLeft, titleTimer := titleLeft\<rparr>)))"

definition run :: "ui_event list \<Rightarrow> world \<Rightarrow> world" where
  "run evs w = fold dispatch evs w"

text \<open>The values written under the content key, oldest first.\<close>

definition content_drafts :: "world \<Rightarrow> string list" where
  "content_drafts w = map snd (filter (\<lambda>kv. fst kv = ''draft_post_content'') (storageWrites w))"

text \<open>
  \<open>setupAutoSave\<close> replaces \<open>PostManager.submitPost\<close>, when the content field exists, by a
  wrapper that removes both drafts after a submission that returned true.
\<close>

definition submitPost_autosave :: "(nat \<Rightarrow> real) \<Rightarrow> world \<Rightarrow> (js_error + bool) \<times> world \<times> event list" where
  "submitPost_autosave rnd w =
     (if postContent w = None then submitPost rnd w
      else (case submitPost rnd w of
              (Inr True, w1, evs) \<Rightarrow>
                (Inr True, removeItem ''draft_post_title'' (removeItem ''draft_post_content'' w1), evs)
            | other \<Rightarrow> other))"

section \<open>A concrete page\<close>

text \<open>
  An online page with empty fields, an empty post list, no cookies, no drafts, a remote
  service that never answers and a Markdown renderer that returns its input.  Concrete
  instances below vary it.
\<close>

definition initial_world :: world where
  "initial_world =
     \<lparr>isOnline = True, cookieJar = [], localStorage = Map.empty, storageWrites = [],
      postTitle = Some [], postContent = Some [], contentTimer = None, titleTimer = None,
      postModalHidden = True, logContainer = Some [], alerts = [], errorLog = [],
      notificationPermission = Some Default, notifications = [], requests = [],
      backend = (\<lambda>issued. NoReply), randomCalls = 0, marked = (\<lambda>breaks src. src),
      toLocaleDateString = (\<lambda>d. d), today = ''11/3/2026''\<rparr>"

section \<open>Notions used to state the properties\<close>

text \<open>
  The rule order the specification gives for the user-facing message of a failure whose
  error carries the message \<open>m\<close>.
\<close>

definition userMessage_rule :: "world \<Rightarrow> js_error \<Rightarrow> string \<Rightarrow> string \<Rightarrow> string" where
  "userMessage_rule w err m operationName =
     (if \<not> isOnline w then ''You appear to be offline. Please check your internet connection.''
      else if str_includes m ''timeout'' then operationName @ '' is taking too long. Please try again.''
      else if str_includes m ''rate limit'' then ''Too many requests. Please wait a moment and try again.''
      else if (\<exists>s. status err = Some s \<and> 500 \<le> s) then ''Server error. Please try again later.''
      else if status err = Some 401 \<or> status err = Some 403 then ''Authentication error. Please log in again.''
      else operationName @ '' failed. Please try again.'')"

text \<open>A field is blank when its element is missing or its value is empty or white space only.\<close>

definition blank :: "string option \<Rightarrow> bool" where
  "blank v = (case v of None \<Rightarrow> True | Some text \<Rightarrow> list_all is_space text)"

text \<open>The validation message of a submission with a blank field names the first blank field.\<close>

definition validation_notice :: "world \<Rightarrow> notice" where
  "validation_notice w =
     (WarningSign, (if blank (postTitle w) then ''Title'' else ''Content'') @ '' cannot be empty!'')"


text \<open>
  The last call issued wrote the like count of \<open>postId\<close> and the service answered it
  without an error.
\<close>

definition update_acknowledged :: "(request list \<Rightarrow> response) \<Rightarrow> string \<Rightarrow> request list \<Rightarrow> bool" where
  "update_acknowledged b postId issued =
     (case rev issued of
        UpdateLikes p n # earlier \<Rightarrow> p = postId \<and> (case b issued of Reply d None \<Rightarrow> True | _ \<Rightarrow> False)
      | _ \<Rightarrow> False)"

text \<open>
  How many writes of the like count of \<open>postId\<close> the service has acknowledged in a log of
  calls.
\<close>

definition increments :: "(request list \<Rightarrow> response) \<Rightarrow> string \<Rightarrow> request list \<Rightarrow> nat" where
  "increments b postId issued =
     length (filter (\<lambda>k. update_acknowledged b postId (take (Suc k) issued)) [0..<length issued])"

definition like_increments :: "string \<Rightarrow> world \<Rightarrow> nat" where
  "like_increments postId w = increments (backend w) postId (requests w)"

text \<open>
Clicking like on the posts of a list, one after the other.
\<close>

fun likePosts :: "(nat \<Rightarrow> real) \<Rightarrow> string list \<Rightarrow> world \<Rightarrow> world" where
  "likePosts rnd [] w = w"
| "likePosts rnd (p # ps) w = likePosts rnd ps (fst (snd (likePost rnd p w)))"

text \<open>
  What an attempt to like \<open>p\<close> that succeeded has done (the cookie is stored, one
  acknowledged write more for \<open>p\<close> and none for another post), and what one that failed has
  left as it was.
\<close>

definition like_succeeded :: "string \<Rightarrow> world \<Rightarrow> world \<Rightarrow> bool" where
  "like_succeeded p w w1 =
     (cookieJar w1 = cookieJar (CookieManager_set (''liked_'' @ p) ''true'' COOKIE_MAX_AGE w)
      \<and> (\<forall>q. like_increments q w1 = like_increments q w + (if q = p then 1 else 0))
      \<and> update_acknowledged (backend w) p (requests w1))"

definition like_failed :: "world \<Rightarrow> world \<Rightarrow> bool" where
  "like_failed w w1 = (cookieJar w1 = cookieJar w \<and> (\<forall>q. like_increments q w1 = like_increments q w))"

text \<open>
  Two pages to run on: a service that answers every call without error with a like count
  of 0, and one that answers every call with no data and no error (a missing post).
\<close>

definition generous_world :: world where
  "generous_world = initial_world\<lparr>backend := (\<lambda>issued. Reply (DataLikes (Some 0)) None)\<rparr>"

definition missing_post_world :: world where
  "missing_post_world = initial_world\<lparr>backend := (\<lambda>issued. Reply DataNull None)\<rparr>"

text \<open>
  The element \<open>loadPosts\<close> renders for a fetched post: its date formatted by the
  environment, a missing like count read as 0.
\<close>

definition loaded_node :: "world \<Rightarrow> bool \<Rightarrow> post \<Rightarrow> post_element" where
  "loaded_node w isLoggedIn p =
     createPostElement w (post_title p) (post_content p) (toLocaleDateString w (post_created_at p))
       isLoggedIn (post_id p) (case post_likes p of None \<Rightarrow> 0 | Some n \<Rightarrow> n)"

text \<open>
  What a failed attempt to load leaves as it was, and what a successful one has done: the
  service answered the last call with a list of posts, and their elements stand, last
  fetched first, before the former children of the post list.
\<close>

definition same_page :: "world \<Rightarrow> world \<Rightarrow> bool" where
  "same_page w v =
     (cookieJar v = cookieJar w \<and> marked v = marked w \<and> toLocaleDateString v = toLocaleDateString w
      \<and> backend v = backend w \<and> logContainer v = logContainer w)"

definition posts_loaded :: "bool \<Rightarrow> post_element list \<Rightarrow> world \<Rightarrow> world \<Rightarrow> bool" where
  "posts_loaded b children w w' =
     (\<exists>ps. backend w (requests w') = Reply (DataPosts ps) None
          \<and> logContainer w' = Some (rev (map (loaded_node w b) ps) @ children))"

text \<open>A page whose service answers every call with two posts, the older first.\<close>

definition first_post :: post where
  "first_post = \<lparr>post_id = ''1'', post_title = ''Hello'', post_content = ''first'',
                  post_likes = Some 2, post_created_at = ''2025-01-01''\<rparr>"

definition second_post :: post where
  "second_post = \<lparr>post_id = ''2'', post_title = ''<b>X</b>'', post_content = ''**bold**'',
                   post_likes = None, post_created_at = ''2025-02-01''\<rparr>"

definition library_world :: world where
  "library_world = initial_world\<lparr>backend := (\<lambda>issued. Reply (DataPosts [first_post, second_post]) None)\<rparr>"

text \<open>
  A burst of typing in the content field: each edit comes \<open>gap\<close> milliseconds after
  the event before it.
\<close>

definition typing_events :: "(nat \<times> string) list \<Rightarrow> ui_event list" where
  "typing_events typing = concat (map (\<lambda>(gap, txt). [Elapse gap, InputContent txt]) typing)"

text \<open>
  An event that cannot start a save: anything but an edit of the content field that
  leaves text other than white space in it.
\<close>

definition quiet :: "ui_event \<Rightarrow> bool" where
  "quiet ev = (case ev of InputContent v \<Rightarrow> blank (Some v) | _ \<Rightarrow> True)"

text \<open>
  A page with a composed post, both drafts stored, and a service that accepts the post.
\<close>

definition writer_world :: world where
  "writer_world =
     initial_world\<lparr>postTitle := Some ''Hello'', postContent := Some ''**bold**'',
       localStorage := [''draft_post_content'' \<mapsto> ''**bold**'', ''draft_post_title'' \<mapsto> ''Hello''],
       backend := (\<lambda>issued. Reply (DataPosts [\<lparr>post_id = ''7'', post_title = ''Hello'',
                     post_content = ''**bold**'', post_likes = Some 0,
                     post_created_at = ''2026-11-03''\<rparr>]) None)\<rparr>"

text \<open>
  A page on which the draft \<open>abc\<close> was saved earlier and no save is pending.
\<close>

definition draft_world :: world where
  "draft_world =
     initial_world\<lparr>localStorage := [''draft_post_content'' \<mapsto> ''abc''],
       storageWrites := [(''draft_post_content'', ''abc'')]\<rparr>"

text \<open>
  The state in which attempt \<open>k + 1\<close> of the retry loop starts when every attempt before it
  failed and was retried: a failed attempt leaves its final state, and the jitter of the
  delay takes one number from the random source.
\<close>

fun attempt_state :: "'a operation \<Rightarrow> nat \<Rightarrow> world \<Rightarrow> world" where
  "attempt_state operation 0 w = w"
| "attempt_state operation (Suc k) w =
     (let w1 = snd (operation (attempt_state operation k w))
      in w1\<lparr>randomCalls := Suc (randomCalls w1)\<rparr>)"

text \<open>
  Two pages whose remote service answers every call with an error: one with status 503,
  which is retryable, and one with status 404, which is not.
\<close>

definition unavailable_world :: world where
  "unavailable_world =
     initial_world\<lparr>backend :=
       (\<lambda>issued. Reply DataNull (Some \<lparr>status = Some 503, message = Some ''Service Unavailable''\<rparr>))\<rparr>"

definition not_found_world :: world where
  "not_found_world =
     initial_world\<lparr>backend :=
       (\<lambda>issued. Reply DataNull (Some \<lparr>status = Some 404, message = Some ''Not Found''\<rparr>))\<rparr>"


section \<open>Facts about strings\<close>

lemma startsWith_iff: "startsWith s p \<longleftrightarrow> (\<exists>r. s = p @ r)"
  by (induction s p rule: startsWith.induct) auto

lemma str_includes_iff: "str_includes s p \<longleftrightarrow> (\<exists>pre post. s = pre @ p @ post)"
proof (induction s)
  case Nil
  then show ?case by auto
next
  case (Cons c cs)
  show ?case
  proof
    assume "str_includes (c # cs) p"
    then consider "startsWith (c # cs) p" | "str_includes cs p" by auto
    then show "\<exists>pre post. c # cs = pre @ p @ post"
    proof cases
      case 1
      then obtain r where "c # cs = p @ r" by (auto simp: startsWith_iff)
      then have "c # cs = [] @ p @ r" by simp
      then show ?thesis by blast
    next
      case 2
      then obtain pre post where "cs = pre @ p @ post" using Cons.IH by blast
      then have "c # cs = (c # pre) @ p @ post" by simp
      then show ?thesis by blast
    qed
  next
    assume "\<exists>pre post. c # cs = pre @ p @ post"
    then obtain pre post where eq: "c # cs = pre @ p @ post" by blast
    show "str_includes (c # cs) p"
    proof (cases pre)
      case Nil
      with eq have "startsWith (c # cs) p" by (auto simp: startsWith_iff)
      then show ?thesis by simp
    next
      case (Cons a pre')
      with eq have "cs = pre' @ p @ post" by simp
      then have "str_includes cs p" using Cons.IH by blast
      then show ?thesis by simp
    qed
  qed
qed



section \<open>Facts about numbers\<close>

text \<open>
  The exponent brackets a value below \<open>2 ^ 1024\<close> between two powers of two, rounding never
  crosses a double, and every whole number up to \<open>2 ^ 53\<close> is a double.
\<close>

lemma binade_up_numeral:
  "binade_up (numeral k) x = (if x < 2 then 0 else 1 + binade_up (pred_numeral k) (x / 2))"
  by (simp add: numeral_eq_Suc)

lemma binade_down_numeral:
  "binade_down (numeral k) x = (if 1 \<le> x then 0 else binade_down (pred_numeral k) (2 * x) - 1)"
  by (simp add: numeral_eq_Suc)

lemma powi_Suc: "(2::real) powi (e + 1) = 2 * 2 powi e"
  by (simp add: power_int_add)

lemma powi_pred: "(2::real) powi (e - 1) = 2 powi e / 2"
  using powi_Suc[of "e - 1"] by simp

lemma binade_up_spec:
  "1 \<le> x \<Longrightarrow> x < 2 ^ Suc n \<Longrightarrow>
   0 \<le> binade_up n x \<and> 2 powi (binade_up n x) \<le> x \<and> x < 2 powi (binade_up n x + 1)"
proof (induction n arbitrary: x)
  case 0
  then show ?case by simp
next
  case (Suc n)
  show ?case
  proof (cases "x < 2")
    case True
    then show ?thesis using Suc.prems by simp
  next
    case False
    then have "1 \<le> x / 2" "x / 2 < 2 ^ Suc n" using Suc.prems by simp_all
    from Suc.IH[OF this] have ih: "0 \<le> binade_up n (x / 2)"
      "2 powi (binade_up n (x / 2)) \<le> x / 2" "x / 2 < 2 powi (binade_up n (x / 2) + 1)"
      by simp_all
    have e: "binade_up (Suc n) x = binade_up n (x / 2) + 1" using False by simp
    show ?thesis
      unfolding e using ih powi_Suc[of "binade_up n (x / 2)"] powi_Suc[of "binade_up n (x / 2) + 1"]
      by simp
  qed
qed

lemma binade_down_spec:
  "0 \<le> x \<Longrightarrow> x < 2 \<Longrightarrow>
   - int n \<le> binade_down n x \<and> binade_down n x \<le> 0 \<and> x < 2 powi (binade_down n x + 1)
   \<and> (binade_down n x = - int n \<or> 2 powi (binade_down n x) \<le> x)"
proof (induction n arbitrary: x)
  case 0
  then show ?case by simp
next
  case (Suc n)
  show ?case
  proof (cases "1 \<le> x")
    case True
    then show ?thesis using Suc.prems by simp
  next
    case False
    then have "0 \<le> 2 * x" "2 * x < 2" using Suc.prems by simp_all
    from Suc.IH[OF this] show ?thesis using False by (auto simp: powi_Suc powi_pred)
  qed
qed

lemma exponent_spec:
  assumes "0 \<le> x" "x < 2 ^ 1024"
  shows "- 1022 \<le> exponent x" "x < 2 powi (exponent x + 1)"
    "exponent x = - 1022 \<or> 2 powi (exponent x) \<le> x"
proof -
  have up: "1 \<le> x \<Longrightarrow> 0 \<le> binade_up 1023 x \<and> 2 powi (binade_up 1023 x) \<le> x \<and> x < 2 powi (binade_up 1023 x + 1)"
    using binade_up_spec[of x 1023] assms by simp
  have down: "x < 1 \<Longrightarrow> - 1022 \<le> binade_down 1022 x \<and> x < 2 powi (binade_down 1022 x + 1)
      \<and> (binade_down 1022 x = - 1022 \<or> 2 powi (binade_down 1022 x) \<le> x)"
    using binade_down_spec[of x 1022] assms by simp
  show "- 1022 \<le> exponent x" "x < 2 powi (exponent x + 1)"
    "exponent x = - 1022 \<or> 2 powi (exponent x) \<le> x"
    using up down assms(1) by (auto simp: exponent_def)
qed

lemma exponent_mono:
  assumes "0 \<le> x" "x \<le> y" "y < 2 ^ 1024"
  shows "exponent x \<le> exponent y"
proof (rule ccontr)
  assume "\<not> exponent x \<le> exponent y"
  then have lt: "exponent y + 1 \<le> exponent x" by simp
  have x: "x < 2 ^ 1024" "0 \<le> y" using assms by simp_all
  have "exponent x \<noteq> - 1022" using lt exponent_spec(1)[OF x(2) assms(3)] by simp
  then have "2 powi (exponent x) \<le> x" using exponent_spec(3)[OF assms(1) x(1)] by simp
  moreover have "y < 2 powi (exponent y + 1)" using exponent_spec(2)[OF x(2) assms(3)] .
  moreover have "(2::real) powi (exponent y + 1) \<le> 2 powi (exponent x)"
    using lt by (intro power_int_increasing) simp_all
  ultimately show False using assms(2) by simp
qed

lemma round_half_even_le: "x \<le> of_int m \<Longrightarrow> round_half_even x \<le> m"
  unfolding round_half_even_def Let_def by (auto; linarith)

lemma round_half_even_ge: "of_int m \<le> x \<Longrightarrow> m \<le> round_half_even x"
  unfolding round_half_even_def Let_def by (auto; linarith)

lemma ulp_pos: "0 < ulp x"
  by (simp add: ulp_def zero_less_power_int)

lemma ulp_binade: "2 powi (exponent x + 1) = 2 ^ 53 * ulp x" "2 powi (exponent x) = 2 ^ 52 * ulp x"
proof -
  have "(2::real) powi (53 + (exponent x - 52)) = 2 powi 53 * 2 powi (exponent x - 52)"
    by (rule power_int_add) simp
  then show "2 powi (exponent x + 1) = 2 ^ 53 * ulp x" by (simp add: ulp_def add.commute)
  have "(2::real) powi (52 + (exponent x - 52)) = 2 powi 52 * 2 powi (exponent x - 52)"
    by (rule power_int_add) simp
  then show "2 powi (exponent x) = 2 ^ 52 * ulp x" by (simp add: ulp_def)
qed

lemma fl_le:
  assumes x: "0 \<le> x" "x \<le> g" and g: "g < 2 ^ 1024" and rep: "g = of_int m * ulp g"
  shows "fl x \<le> g"
proof -
  have xr: "x < 2 ^ 1024" and g0: "0 \<le> g" using x g by simp_all
  have mono: "exponent x \<le> exponent g" using x g by (intro exponent_mono) simp_all
  show ?thesis
  proof (cases "exponent x = exponent g")
    case True
    then have u: "ulp g = ulp x" by (simp add: ulp_def)
    have "x / ulp x \<le> of_int m" using x(2) rep u ulp_pos[of x] by (simp add: field_simps)
    then have "round_half_even (x / ulp x) \<le> m" by (rule round_half_even_le)
    then have "fl x \<le> of_int m * ulp x"
      unfolding fl_def using ulp_pos[of x] by (simp add: mult_right_mono)
    then show ?thesis using rep u by simp
  next
    case False
    then have lt: "exponent x + 1 \<le> exponent g" using mono by simp
    have "exponent g \<noteq> - 1022" using lt exponent_spec(1)[OF x(1) xr] by simp
    then have gl: "2 powi (exponent g) \<le> g" using exponent_spec(3)[OF g0 g] by simp
    have "x < 2 ^ 53 * ulp x" using exponent_spec(2)[OF x(1) xr] by (simp add: ulp_binade)
    then have "x / ulp x \<le> of_int (2 ^ 53)" using ulp_pos[of x] by (simp add: field_simps)
    then have "round_half_even (x / ulp x) \<le> 2 ^ 53" by (rule round_half_even_le)
    then have "real_of_int (round_half_even (x / ulp x)) \<le> of_int (2 ^ 53)"
      by (simp only: of_int_le_iff)
    then have "of_int (round_half_even (x / ulp x)) \<le> (2 ^ 53 :: real)" by simp
    then have "fl x \<le> 2 ^ 53 * ulp x"
      unfolding fl_def using ulp_pos[of x] by (simp add: mult_right_mono)
    also have "\<dots> = 2 powi (exponent x + 1)" by (simp add: ulp_binade)
    also have "\<dots> \<le> 2 powi (exponent g)" using lt by (intro power_int_increasing) simp_all
    finally show ?thesis using gl by simp
  qed
qed

lemma fl_ge:
  assumes x: "0 \<le> g" "g \<le> x" and xr: "x < 2 ^ 1024" and rep: "g = of_int m * ulp g"
  shows "g \<le> fl x"
proof -
  have g: "g < 2 ^ 1024" and x0: "0 \<le> x" using x xr by simp_all
  have mono: "exponent g \<le> exponent x" using x xr by (intro exponent_mono) simp_all
  show ?thesis
  proof (cases "exponent x = exponent g")
    case True
    then have u: "ulp g = ulp x" by (simp add: ulp_def)
    have "of_int m \<le> x / ulp x" using x(2) rep u ulp_pos[of x] by (simp add: field_simps)
    then have "m \<le> round_half_even (x / ulp x)" by (rule round_half_even_ge)
    then have "of_int m * ulp x \<le> fl x"
      unfolding fl_def using ulp_pos[of x] by (simp add: mult_right_mono)
    then show ?thesis using rep u by simp
  next
    case False
    then have lt: "exponent g + 1 \<le> exponent x" using mono by simp
    have "exponent x \<noteq> - 1022" using lt exponent_spec(1)[OF x(1) g] by simp
    then have xl: "2 ^ 52 * ulp x \<le> x" using exponent_spec(3)[OF x0 xr] by (simp add: ulp_binade)
    then have "of_int (2 ^ 52) \<le> x / ulp x" using ulp_pos[of x] by (simp add: field_simps)
    then have "2 ^ 52 \<le> round_half_even (x / ulp x)" by (rule round_half_even_ge)
    then have "real_of_int (2 ^ 52) \<le> of_int (round_half_even (x / ulp x))"
      by (simp only: of_int_le_iff)
    then have "(2 ^ 52 :: real) \<le> of_int (round_half_even (x / ulp x))" by simp
    then have "2 ^ 52 * ulp x \<le> fl x"
      unfolding fl_def using ulp_pos[of x] by (simp add: mult_right_mono)
    moreover have "g < 2 powi (exponent g + 1)" using exponent_spec(2)[OF x(1) g] .
    moreover have "(2::real) powi (exponent g + 1) \<le> 2 powi (exponent x)"
      using lt by (intro power_int_increasing) simp_all
    ultimately show ?thesis by (simp add: ulp_binade)
  qed
qed

lemma integer_is_double:
  assumes "0 \<le> n" "real_of_int n \<le> 2 ^ 53"
  shows "\<exists>m. real_of_int n = of_int m * ulp (of_int n)"
proof (cases "n = 0")
  case True
  then show ?thesis by (intro exI[of _ 0]) simp
next
  case False
  then have n1: "1 \<le> real_of_int n" using assms(1) by linarith
  have "(2::real) ^ 53 < 2 ^ 1024" by simp
  then have r: "0 \<le> real_of_int n" "real_of_int n < 2 ^ 1024"
    using n1 assms(2) by simp_all
  let ?e = "exponent (of_int n)"
  have e0: "0 \<le> ?e" using n1 binade_up_spec[of "of_int n" 1023] r
    by (simp add: exponent_def)
  have le: "2 powi ?e \<le> real_of_int n"
    using exponent_spec(3)[OF r] e0 by auto
  then have "(2::real) powi ?e \<le> 2 powi 53" using assms(2) by simp
  then have e53: "?e \<le> 53" by (intro power_int_le_imp_le_exp[of 2 ?e 53]) simp_all
  show ?thesis
  proof (cases "?e = 53")
    case True
    then have "real_of_int n = 2 ^ 53" using le assms(2) by simp
    moreover have "ulp (of_int n) = 2" using True by (simp add: ulp_def)
    ultimately show ?thesis by (intro exI[of _ "2 ^ 52"]) simp
  next
    case False
    define k where "k = nat (52 - ?e)"
    have ek: "?e - 52 = - int k" using False e53 by (simp add: k_def)
    have "ulp (of_int n) = inverse (2 ^ k)"
      unfolding ulp_def ek by (simp add: power_int_minus)
    then show ?thesis by (intro exI[of _ "n * 2 ^ k"]) simp
  qed
qed

lemma fl_integer:
  assumes "0 \<le> n" "real_of_int n \<le> 2 ^ 53"
  shows "fl (of_int n) = of_int n"
proof -
  have "(2::real) ^ 53 < 2 ^ 1024" by simp
  then have r: "0 \<le> real_of_int n" "real_of_int n < 2 ^ 1024" using assms by simp_all
  obtain m where m: "real_of_int n = of_int m * ulp (of_int n)"
    using integer_is_double[OF assms] by blast
  have "fl (of_int n) \<le> of_int n" by (rule fl_le[OF r(1) _ r(2) m]) simp
  moreover have "of_int n \<le> fl (of_int n)" by (rule fl_ge[OF r(1) _ r(2) m]) simp
  ultimately show ?thesis by simp
qed

lemma fl_between:
  assumes "0 \<le> a" "real_of_int a \<le> x" "x \<le> real_of_int b" "real_of_int b \<le> 2 ^ 53"
  shows "of_int a \<le> fl x \<and> fl x \<le> of_int b"
proof -
  have "(2::real) ^ 53 < 2 ^ 1024" by simp
  then have r: "0 \<le> real_of_int a" "real_of_int b < 2 ^ 1024" "x < 2 ^ 1024" "0 \<le> x"
    "real_of_int a \<le> 2 ^ 53" "0 \<le> b"
    using assms by simp_all
  obtain m where m: "real_of_int a = of_int m * ulp (of_int a)"
    using integer_is_double[OF assms(1) r(5)] by blast
  obtain m' where m': "real_of_int b = of_int m' * ulp (of_int b)"
    using integer_is_double[OF r(6) assms(4)] by blast
  show ?thesis
    using fl_ge[OF r(1) assms(2) r(3) m] fl_le[OF r(4) assms(3) r(2) m'] by simp
qed

section \<open>The retry wrapper\<close>

text \<open>
  Claim C2.  \<open>isRetryableError\<close> returns true exactly when the client is offline, or the error
  carries a status equal to one of 408, 429, 500, 502, 503, 504, or the error's message,
  lower-cased and taken as the empty string when absent, contains one of the five listed
  substrings.  The guard \<open>error.status &&\<close> of the source excludes nothing the list admits.
\<close>

theorem isRetryableError_iff:
  "isRetryableError w err \<longleftrightarrow>
     (\<not> isOnline w
      \<or> (\<exists>c \<in> {408, 429, 500, 502, 503, 504}. status err = Some c)
      \<or> (\<exists>msg \<in> {''network error'', ''timeout'', ''connection'', ''rate limit'', ''server error''}.
            \<exists>pre post. toLowerCase (case message err of None \<Rightarrow> [] | Some m \<Rightarrow> m) = pre @ msg @ post))"
proof -
  have codes: "(case status err of None \<Rightarrow> False | Some s \<Rightarrow> s \<noteq> 0 \<and> List.member retryableStatusCodes s)
      \<longleftrightarrow> (\<exists>c \<in> {408, 429, 500, 502, 503, 504}. status err = Some c)"
    by (cases "status err") (auto simp: retryableStatusCodes_def)
  have msgs: "list_ex (\<lambda>msg. str_includes t msg) retryableMessages
      \<longleftrightarrow> (\<exists>msg \<in> {''network error'', ''timeout'', ''connection'', ''rate limit'', ''server error''}.
            \<exists>pre post. t = pre @ msg @ post)" for t
    unfolding list_ex_iff str_includes_iff retryableMessages_def by simp
  show ?thesis
    unfolding isRetryableError_def Let_def codes msgs by auto
qed

theorem isRetryableError_iff_witness:
  "isRetryableError (initial_world\<lparr>isOnline := False\<rparr>) \<lparr>status = Some 404, message = None\<rparr>
   \<and> isRetryableError initial_world \<lparr>status = Some 503, message = None\<rparr>
   \<and> isRetryableError initial_world \<lparr>status = None, message = Some ''Request TIMEOUT''\<rparr>
   \<and> \<not> isRetryableError initial_world \<lparr>status = Some 404, message = Some ''Not Found''\<rparr>"
proof -
  have lc: "toLowerCase ''Request TIMEOUT'' = ''request '' @ ''timeout'' @ []"
    by (simp add: toLowerCase_def lower_char_def is_upper_def)
  have a: "isRetryableError (initial_world\<lparr>isOnline := False\<rparr>) \<lparr>status = Some 404, message = None\<rparr>"
    using isRetryableError_iff[of "initial_world\<lparr>isOnline := False\<rparr>" "\<lparr>status = Some 404, message = None\<rparr>"]
    by simp
  have b: "isRetryableError initial_world \<lparr>status = Some 503, message = None\<rparr>"
    using isRetryableError_iff[of initial_world "\<lparr>status = Some 503, message = None\<rparr>"]
    by simp
  have c: "isRetryableError initial_world \<lparr>status = None, message = Some ''Request TIMEOUT''\<rparr>"
    using isRetryableError_iff[of initial_world "\<lparr>status = None, message = Some ''Request TIMEOUT''\<rparr>"] lc
    by (simp del: append.simps) blast
  have d: "\<not> isRetryableError initial_world \<lparr>status = Some 404, message = Some ''Not Found''\<rparr>"
    by (simp add: isRetryableError_def initial_world_def toLowerCase_def lower_char_def is_upper_def
          retryableMessages_def retryableStatusCodes_def)
  show ?thesis using a b c d by simp
qed

lemma retryFrom_not_retryable:
  assumes "operation w = (Inl e, w1)" "\<not> isRetryableError w1 e" "a \<le> N"
  shows "retryFrom rnd operation N a le w = (Inl (Some e), w1, [Invoke a])"
  using assms by (subst retryFrom.simps) simp

lemma retryFrom_success:
  "operation w = (Inr v, w1) \<Longrightarrow> a \<le> N \<Longrightarrow>
   retryFrom rnd operation N a le w = (Inr v, w1, [Invoke a])"
  by (subst retryFrom.simps) simp

lemma retryFrom_give_up:
  "operation w = (Inl e, w1) \<Longrightarrow> a \<le> N \<Longrightarrow> a = N \<or> \<not> isRetryableError w1 e \<Longrightarrow>
   retryFrom rnd operation N a le w = (Inl (Some e), w1, [Invoke a])"
  by (subst retryFrom.simps) auto

lemma retryFrom_retry:
  "operation w = (Inl e, w1) \<Longrightarrow> a < N \<Longrightarrow> isRetryableError w1 e \<Longrightarrow>
   retryFrom rnd operation N (Suc a) (Some e) (w1\<lparr>randomCalls := Suc (randomCalls w1)\<rparr>) = (res, w3, evs) \<Longrightarrow>
   retryFrom rnd operation N a le w =
     (res, w3, Invoke a # Sleep (js_plus (js_times RETRY_DELAY_BASE (Math_pow 2 (a - 1))) (js_times (rnd (randomCalls w1)) 1000)) # evs)"
  by (subst retryFrom.simps) (simp add: Math_random_def)

section \<open>The safe-operation wrapper\<close>

lemma withTimeout_simps [simp]:
  "promise w = (Resolved v, w1) \<Longrightarrow> withTimeout promise t name w = (Inr v, w1)"
  "promise w = (Rejected e, w1) \<Longrightarrow> withTimeout promise t name w = (Inl e, w1)"
  "promise w = (Pending, w1) \<Longrightarrow> withTimeout promise t name w =
     (Inl \<lparr>status = None, message = Some (name @ '' timed out after '' @ show_nat t @ ''ms'')\<rparr>, w1)"
  by (simp_all add: withTimeout_def)

lemma alert_fields [simp]:
  "postTitle (alert n w) = postTitle w" "postContent (alert n w) = postContent w"
  "isOnline (alert n w) = isOnline w" "requests (alert n w) = requests w"
  "alerts (alert n w) = alerts w @ [n]" "cookieJar (alert n w) = cookieJar w"
  "backend (alert n w) = backend w" "logContainer (alert n w) = logContainer w"
  "localStorage (alert n w) = localStorage w"
  by (simp_all add: alert_def)

lemma logError_fields [simp]:
  "requests (logError t n m w) = requests w" "alerts (logError t n m w) = alerts w"
  "isOnline (logError t n m w) = isOnline w" "cookieJar (logError t n m w) = cookieJar w"
  "backend (logError t n m w) = backend w" "logContainer (logError t n m w) = logContainer w"
  "localStorage (logError t n m w) = localStorage w"
  by (simp_all add: logError_def)

text \<open>
  For a failure whose error carries a message, \<open>safeOperation\<close> logs, alerts the message
  the rule order selects, and returns \<open>null\<close>.
\<close>

lemma safeOperation_failure_with_message:
  assumes "retryWithBackoff rnd (withTimeout operation REQUEST_TIMEOUT name) MAX_RETRIES w = (Inl (Some err), w1, evs)"
    and "message err = Some m"
  shows "safeOperation rnd operation name True w =
           (Inr None,
            alert (CrossMark, userMessage_rule w1 err m name)
              (logError ''Safe Operation Error'' name (Some m) w1),
            evs)"
  using assms
  by (cases "status err")
     (auto simp: safeOperation_def Let_def getUserFriendlyErrorMessage_def userMessage_rule_def logError_def)

text \<open>
  Claim C3 (the code departs from it).  Online, an operation that rejects with an error
  that has no message (here \<open>{status: 404}\<close>) is not retried, and \<open>safeOperation\<close> then
  throws a \<open>TypeError\<close> out of its \<open>catch\<close> block instead of returning \<open>null\<close>: the failure is
  logged, no message is shown.
\<close>

theorem safeOperation_throws_on_error_without_message:
  "safeOperation (\<lambda>i. 0) (\<lambda>w. (Rejected \<lparr>status = Some 404, message = None\<rparr> :: unit settled, w))
      ''Delete Post'' True initial_world
   = (Inl (typeError ''undefined (reading includes)''),
      initial_world\<lparr>errorLog :=
        [\<lparr>info_type = ''Safe Operation Error'', info_operationName = ''Delete Post'',
          info_message = None, info_isOnline = True\<rparr>]\<rparr>,
      [Invoke 1])"
  by (simp add: safeOperation_def retryWithBackoff_def retryFrom.simps MAX_RETRIES_def
      isRetryableError_def retryableStatusCodes_def retryableMessages_def toLowerCase_def
      logError_def getUserFriendlyErrorMessage_def initial_world_def)

section \<open>Submitting a post with a blank field\<close>

lemma dropWhile_all: "list_all P xs \<Longrightarrow> dropWhile P xs = []"
  by (induction xs) auto

lemma trim_empty_iff: "trim s = [] \<longleftrightarrow> list_all is_space s"
proof
  assume "list_all is_space s"
  then show "trim s = []" by (simp add: trim_def dropWhile_all)
next
  assume t: "trim s = []"
  then have "dropWhile is_space (rev (dropWhile is_space s)) = []" by (simp add: trim_def)
  then have a: "\<forall>x \<in> set (dropWhile is_space s). is_space x"
    by (simp add: dropWhile_eq_Nil_conv)
  have "dropWhile is_space s = []"
  proof (cases "dropWhile is_space s")
    case Nil then show ?thesis .
  next
    case (Cons x xs)
    then have "\<not> is_space x" using hd_dropWhile[of is_space s] by simp
    moreover have "is_space x" using a Cons by simp
    ultimately show ?thesis by simp
  qed
  then show "list_all is_space s" by (simp add: dropWhile_eq_Nil_conv list_all_iff)
qed

lemma blank_test: "(case v of None \<Rightarrow> True | Some text \<Rightarrow> text = [] \<or> trim text = []) = blank v"
  by (cases v) (auto simp: blank_def trim_empty_iff)




lemma validation_notice_cong [simp]:
  "validation_notice (alert n w) = validation_notice w"
  "validation_notice (w\<lparr>randomCalls := k\<rparr>) = validation_notice w"
  by (simp_all add: validation_notice_def)







section \<open>Cookies and likes\<close>

lemma js_split_nonempty: "sep \<noteq> [] \<Longrightarrow> js_split s sep \<noteq> []"
  by (subst js_split.simps) (auto split: list.splits)

lemma js_split_Nil: "sep \<noteq> [] \<Longrightarrow> js_split [] sep = [[]]"
  by (subst js_split.simps) simp

lemma startsWith_append_same [simp]: "startsWith (p @ r) p"
  by (simp add: startsWith_iff)

lemma js_split_append:
  assumes "sep \<noteq> []" "hd sep \<notin> set s"
  shows "js_split (s @ sep @ t) sep = s # js_split t sep"
  using assms(2)
proof (induction s)
  case Nil
  show ?case using assms(1) by (subst js_split.simps) simp
next
  case (Cons c s)
  then have ne: "c \<noteq> hd sep" and ih: "js_split (s @ sep @ t) sep = s # js_split t sep" by auto
  have "\<not> startsWith (c # s @ sep @ t) sep"
    using assms(1) ne by (cases sep) auto
  then show ?case using assms(1) ih by (subst js_split.simps) simp
qed

lemma js_split_no_sep:
  assumes "sep \<noteq> []" "hd sep \<notin> set s"
  shows "js_split s sep = [s]"
  using assms(2)
proof (induction s)
  case Nil
  show ?case using assms(1) by (simp add: js_split_Nil)
next
  case (Cons c s)
  then have ne: "c \<noteq> hd sep" and ih: "js_split s sep = [s]" by auto
  have "\<not> startsWith (c # s) sep" using assms(1) ne by (cases sep) auto
  then show ?case using assms(1) ih by (subst js_split.simps) simp
qed

lemma cookieJar_set_cong:
  "cookieJar w2 = cookieJar w \<Longrightarrow>
   cookieJar (CookieManager_set n v m w2) = cookieJar (CookieManager_set n v m w)"
  by (simp add: CookieManager_set_def document_cookie_assign_def)

lemma hasLiked_cong: "cookieJar w' = cookieJar w \<Longrightarrow> hasLiked p w' = hasLiked p w"
  by (simp add: hasLiked_def CookieManager_get_def document_cookie_def)

lemma increments_snoc:
  "increments b q (issued @ [rq]) = increments b q issued + (if update_acknowledged b q (issued @ [rq]) then 1 else 0)"
proof -
  have "filter (\<lambda>k. update_acknowledged b q (take (Suc k) (issued @ [rq]))) [0..<length issued]
      = filter (\<lambda>k. update_acknowledged b q (take (Suc k) issued)) [0..<length issued]"
    by (rule filter_cong) auto
  then show ?thesis by (simp add: increments_def)
qed

lemma ack_select [simp]: "\<not> update_acknowledged b q (issued @ [SelectLikes p])"
  by (simp add: update_acknowledged_def)

lemma ack_update:
  "update_acknowledged b q (issued @ [UpdateLikes p n]) \<longleftrightarrow> p = q \<and> (\<exists>d. b (issued @ [UpdateLikes p n]) = Reply d None)"
  by (auto simp: update_acknowledged_def split: response.splits option.splits)

lemma ack_select_update:
  "update_acknowledged b q (issued @ [SelectLikes p, UpdateLikes p' n])
     \<longleftrightarrow> p' = q \<and> (\<exists>d. b (issued @ [SelectLikes p, UpdateLikes p' n]) = Reply d None)"
  using ack_update[of b q "issued @ [SelectLikes p]" p' n] by simp

lemma increments_select [simp]:
  "increments b q (issued @ [SelectLikes p]) = increments b q issued"
  by (simp add: increments_snoc)

lemma increments_select_update:
  "increments b q (issued @ [SelectLikes p, UpdateLikes p' n])
     = increments b q issued
       + (if p' = q \<and> (\<exists>d. b (issued @ [SelectLikes p, UpdateLikes p' n]) = Reply d None) then 1 else 0)"
  using increments_snoc[of b q "issued @ [SelectLikes p]" "UpdateLikes p' n"]
  by (simp add: ack_select_update)

lemma likePost_operation_liked:
  "hasLiked p w \<Longrightarrow> likePost_operation p w = (Resolved False, w)"
  by (simp add: likePost_operation_def)

lemma updateLikeUI_fields [simp]:
  "cookieJar (updateLikeUI p n w) = cookieJar w" "requests (updateLikeUI p n w) = requests w"
  "backend (updateLikeUI p n w) = backend w" "isOnline (updateLikeUI p n w) = isOnline w"
  by (simp_all add: updateLikeUI_def)

lemma CookieManager_set_fields [simp]:
  "requests (CookieManager_set n v m w) = requests w"
  "backend (CookieManager_set n v m w) = backend w" "isOnline (CookieManager_set n v m w) = isOnline w"
  by (simp_all add: CookieManager_set_def document_cookie_assign_def)

lemma likePost_operation_not_liked:
  assumes "\<not> hasLiked p w" "likePost_operation p w = (out, w1)"
  shows "backend w1 = backend w \<and> out \<noteq> Resolved False
         \<and> (if out = Resolved True then like_succeeded p w w1 else like_failed w w1)"
  using assms
  by (auto simp: likePost_operation_def remote_def Let_def like_succeeded_def like_failed_def
        like_increments_def increments_select_update ack_select_update
        intro: cookieJar_set_cong
        split: response.splits option.splits payload.splits if_splits)

lemma like_failed_refl [simp]: "like_failed w w"
  by (simp add: like_failed_def)

lemma like_failed_random [simp]:
  "like_failed w (w1\<lparr>randomCalls := k\<rparr>) = like_failed w w1"
  by (simp add: like_failed_def like_increments_def)

lemma like_failed_then_succeeded:
  "like_failed w w1 \<Longrightarrow> backend w1 = backend w \<Longrightarrow> like_succeeded p w1 w2 \<Longrightarrow> like_succeeded p w w2"
  by (auto simp: like_failed_def like_succeeded_def like_increments_def intro: cookieJar_set_cong)

lemma like_failed_trans:
  "like_failed w w1 \<Longrightarrow> like_failed w1 w2 \<Longrightarrow> like_failed w w2"
  by (simp add: like_failed_def)

lemma like_attempt:
  assumes "\<not> hasLiked p w" "withTimeout (likePost_operation p) t name w = (r, w1)"
  shows "backend w1 = backend w \<and> r \<noteq> Inr False
         \<and> (if r = Inr True then like_succeeded p w w1 else like_failed w w1)"
proof -
  obtain out w0 where op: "likePost_operation p w = (out, w0)" by (cases "likePost_operation p w")
  from likePost_operation_not_liked[OF assms(1) op] assms(2) op show ?thesis
    by (cases out) (auto simp: withTimeout_def)
qed

lemma like_retry:
  assumes "\<not> hasLiked p w"
    and "retryFrom rnd (withTimeout (likePost_operation p) t name) N a le w = (res, w', evs)"
    and "Suc N - a = n"
  shows "backend w' = backend w \<and> res \<noteq> Inr False
         \<and> (if res = Inr True then like_succeeded p w w' else like_failed w w')"
  using assms
proof (induction n arbitrary: a le w res w' evs)
  case 0
  then have "\<not> a \<le> N" by simp
  then have "retryFrom rnd (withTimeout (likePost_operation p) t name) N a le w = (Inl le, w, [])"
    by (subst retryFrom.simps) simp
  with 0 show ?case by auto
next
  case (Suc n)
  let ?op = "withTimeout (likePost_operation p) t name"
  have aN: "a \<le> N" using Suc.prems(3) by simp
  obtain r w1 where op: "?op w = (r, w1)" by (cases "?op w")
  note att = like_attempt[OF Suc.prems(1) op]
  show ?case
  proof (cases r)
    case (Inr v)
    have "retryFrom rnd ?op N a le w = (Inr v, w1, [Invoke a])"
      using op Inr aN by (intro retryFrom_success[where operation = ?op and w = w]) simp_all
    with Suc.prems(2) att Inr show ?thesis by auto
  next
    case (Inl e)
    then have f: "like_failed w w1" and b: "backend w1 = backend w" using att by auto
    show ?thesis
    proof (cases "a = N \<or> \<not> isRetryableError w1 e")
      case True
      have "retryFrom rnd ?op N a le w = (Inl (Some e), w1, [Invoke a])"
        using op Inl aN True by (intro retryFrom_give_up[where operation = ?op and w = w]) simp_all
      with Suc.prems(2) f b show ?thesis by auto
    next
      case False
      let ?w2 = "w1\<lparr>randomCalls := Suc (randomCalls w1)\<rparr>"
      obtain res2 w3 evs2 where rec: "retryFrom rnd ?op N (Suc a) (Some e) ?w2 = (res2, w3, evs2)"
        by (cases "retryFrom rnd ?op N (Suc a) (Some e) ?w2") auto
      have "cookieJar ?w2 = cookieJar w" using f by (simp add: like_failed_def)
      then have nl: "\<not> hasLiked p ?w2" using Suc.prems(1) hasLiked_cong by blast
      have m: "Suc N - Suc a = n" using Suc.prems(3) by simp
      note ih = Suc.IH[OF nl rec m]
      have "retryFrom rnd ?op N a le w
            = (res2, w3, Invoke a # Sleep (js_plus (js_times RETRY_DELAY_BASE (Math_pow 2 (a - 1))) (js_times (rnd (randomCalls w1)) 1000)) # evs2)"
        using op Inl False aN rec
        by (intro retryFrom_retry[where operation = ?op and w = w and e = e and ?w1.0 = w1]) auto
      with Suc.prems(2) have eq: "res = res2" "w' = w3" by simp_all
      have f2: "like_failed w ?w2" using f by simp
      have b2: "backend ?w2 = backend w" using b by simp
      show ?thesis
      proof (cases "res2 = Inr True")
        case True
        then have "like_succeeded p ?w2 w3" using ih by simp
        then have "like_succeeded p w w3" using like_failed_then_succeeded[OF f2 b2] by blast
        then show ?thesis using ih eq True b2 by simp
      next
        case False
        then have "like_failed ?w2 w3" using ih by simp
        then have "like_failed w w3" using like_failed_trans[OF f2] by blast
        then show ?thesis using ih eq False b2 by simp
      qed
    qed
  qed
qed

lemma like_succeeded_after [simp]:
  "like_succeeded p w (alert n w1) = like_succeeded p w w1"
  "like_succeeded p w (logError t nm m w1) = like_succeeded p w w1"
  by (simp_all add: like_succeeded_def like_increments_def)

lemma like_failed_after [simp]:
  "like_failed w (alert n w1) = like_failed w w1"
  "like_failed w (logError t nm m w1) = like_failed w w1"
  by (simp_all add: like_failed_def like_increments_def)

lemma likePost_liked:
  assumes "hasLiked p w"
  shows "likePost rnd p w = (Inr True, w, [Invoke 1])"
proof -
  let ?op = "withTimeout (likePost_operation p) REQUEST_TIMEOUT ''Like Post''"
  have "?op w = (Inr False, w)" using likePost_operation_liked[OF assms] by simp
  then have "retryFrom rnd ?op MAX_RETRIES 1 None w = (Inr False, w, [Invoke 1])"
    by (intro retryFrom_success[where operation = ?op and w = w]) (simp_all add: MAX_RETRIES_def)
  then show ?thesis
    by (simp add: likePost_def not_null_def safeOperation_def retryWithBackoff_def)
qed

lemma likePost_not_liked:
  assumes "\<not> hasLiked p w" "likePost rnd p w = (r, w', evs)"
  shows "backend w' = backend w
         \<and> (if r = Inr True then like_succeeded p w w' else like_failed w w')"
proof -
  let ?op = "withTimeout (likePost_operation p) REQUEST_TIMEOUT ''Like Post''"
  obtain res w1 evs1 where rt: "retryFrom rnd ?op MAX_RETRIES 1 None w = (res, w1, evs1)"
    by (cases "retryFrom rnd ?op MAX_RETRIES 1 None w") auto
  note lr = like_retry[OF assms(1) rt refl]
  show ?thesis
  proof (cases res)
    case (Inr v)
    then have "v" using lr by (cases v) auto
    then have "likePost rnd p w = (Inr True, w1, evs1)"
      using rt Inr by (simp add: likePost_def not_null_def safeOperation_def retryWithBackoff_def)
    with assms(2) lr Inr \<open>v\<close> show ?thesis by auto
  next
    case (Inl thrown)
    then have f: "like_failed w w1" and b: "backend w1 = backend w" using lr by auto
    have "r \<noteq> Inr True \<and> like_failed w w' \<and> backend w' = backend w"
      using assms(2) rt Inl f b
      by (auto simp: likePost_def not_null_def safeOperation_def retryWithBackoff_def Let_def
            split: option.splits sum.splits)
    then show ?thesis by simp
  qed
qed

text \<open>
  Claim C10.  \<open>likePost\<close> sets the liked-flag cookie only after the write of the like count
  has succeeded.  An attempt that does not run to its end (the read fails, the post is not
  found, the write fails or a call does not answer in time) leaves the cookies as they
  were; a \<open>likePost\<close> call that does not return true after a successful attempt leaves the
  cookies, and so \<open>hasLiked\<close>, as they were; and when \<open>hasLiked\<close> turns from false to
  true the last call issued is a write of this post's count that the service acknowledged.
\<close>

theorem likePost_sets_cookie_only_after_update:
  assumes "likePost_operation postId w = (out, w1)" and "likePost rnd postId w = (r, w', evs)"
  shows "(out \<noteq> Resolved True \<longrightarrow> cookieJar w1 = cookieJar w)
       \<and> (r \<noteq> Inr True \<longrightarrow> cookieJar w' = cookieJar w \<and> hasLiked postId w' = hasLiked postId w)
       \<and> (\<not> hasLiked postId w \<and> hasLiked postId w' \<longrightarrow>
            r = Inr True \<and> update_acknowledged (backend w) postId (requests w'))"
proof (cases "hasLiked postId w")
  case True
  then show ?thesis
    using assms likePost_operation_liked[OF True] likePost_liked[OF True, of rnd] by auto
next
  case False
  have a: "out \<noteq> Resolved True \<longrightarrow> cookieJar w1 = cookieJar w"
    using likePost_operation_not_liked[OF False assms(1)] by (auto simp: like_failed_def)
  note lp = likePost_not_liked[OF False assms(2)]
  have b: "r \<noteq> Inr True \<longrightarrow> cookieJar w' = cookieJar w \<and> hasLiked postId w' = hasLiked postId w"
    using lp by (auto simp: like_failed_def dest: hasLiked_cong)
  have c: "hasLiked postId w' \<longrightarrow> r = Inr True \<and> update_acknowledged (backend w) postId (requests w')"
    using lp b False by (auto simp: like_succeeded_def)
  show ?thesis using a b c by blast
qed

lemma eval_missing:
  "likePost_operation ''42'' missing_post_world
     = (Rejected \<lparr>status = None, message = Some ''Post not found''\<rparr>,
        missing_post_world\<lparr>requests := [SelectLikes ''42'']\<rparr>)"
  by (simp add: likePost_operation_def hasLiked_def CookieManager_get_def document_cookie_def
      js_split.simps remote_def missing_post_world_def initial_world_def)

lemma missing_post_world_fields [simp]:
  "isOnline missing_post_world" "cookieJar missing_post_world = []" "requests missing_post_world = []"
  by (simp_all add: missing_post_world_def initial_world_def)

lemma not_liked_missing: "\<not> hasLiked ''42'' missing_post_world"
  by (simp add: hasLiked_def CookieManager_get_def document_cookie_def js_split.simps)

lemma eval_missing2:
  "fst (likePost (\<lambda>i. 0) ''42'' missing_post_world) = Inr False"
proof -
  let ?op = "withTimeout (likePost_operation ''42'') REQUEST_TIMEOUT ''Like Post''"
  let ?e = "\<lparr>status = None, message = Some ''Post not found''\<rparr>"
  let ?w1 = "missing_post_world\<lparr>requests := [SelectLikes ''42'']\<rparr>"
  have op: "?op missing_post_world = (Inl ?e, ?w1)" using eval_missing by simp
  have nr: "\<not> isRetryableError ?w1 ?e"
    by (simp add: isRetryableError_def retryableMessages_def toLowerCase_def lower_char_def is_upper_def)
  have "retryFrom (\<lambda>i. 0) ?op MAX_RETRIES 1 None missing_post_world = (Inl (Some ?e), ?w1, [Invoke 1])"
    using op nr by (intro retryFrom_give_up[where operation = ?op and w = missing_post_world])
      (simp_all add: MAX_RETRIES_def)
  then show ?thesis
    by (simp add: likePost_def not_null_def safeOperation_def retryWithBackoff_def
        getUserFriendlyErrorMessage_def)
qed

theorem likePost_sets_cookie_only_after_update_witness:
  "\<not> hasLiked ''42'' missing_post_world
   \<and> fst (likePost (\<lambda>i. 0) ''42'' missing_post_world) = Inr False
   \<and> \<not> hasLiked ''42'' (fst (snd (likePost (\<lambda>i. 0) ''42'' missing_post_world)))"
proof -
  obtain out w1 where op: "likePost_operation ''42'' missing_post_world = (out, w1)"
    by (cases "likePost_operation ''42'' missing_post_world")
  obtain r w' evs where lp: "likePost (\<lambda>i. 0) ''42'' missing_post_world = (r, w', evs)"
    by (cases "likePost (\<lambda>i. 0) ''42'' missing_post_world") auto
  have r: "r = Inr False" using eval_missing2 lp by simp
  from likePost_sets_cookie_only_after_update[OF op lp] r
  have "hasLiked ''42'' w' = hasLiked ''42'' missing_post_world" by simp
  then show ?thesis using not_liked_missing lp r by simp
qed

lemma generous_world_fields [simp]:
  "isOnline generous_world" "cookieJar generous_world = []" "requests generous_world = []"
  "backend generous_world = (\<lambda>issued. Reply (DataLikes (Some 0)) None)"
  "logContainer generous_world = Some []"
  by (simp_all add: generous_world_def initial_world_def)

lemma show_max_age: "show_nat COOKIE_MAX_AGE = ''31536000''"
  by (simp add: COOKIE_MAX_AGE_def show_nat.simps digit_char_def)

section \<open>Rendering a post\<close>





































section \<open>Loading the posts\<close>

lemma createPostElement_cong:
  assumes "cookieJar v = cookieJar w" "marked v = marked w"
  shows "createPostElement v t c d s p n = createPostElement w t c d s p n"
  using hasLiked_cong[OF assms(1), of p] assms(2) by (simp add: createPostElement_def)

lemma loaded_node_cong:
  assumes "cookieJar v = cookieJar w" "marked v = marked w" "toLocaleDateString v = toLocaleDateString w"
  shows "loaded_node v b p = loaded_node w b p"
  unfolding loaded_node_def assms(3) by (rule createPostElement_cong[OF assms(1,2)])

lemma render_all:
  assumes "cookieJar v = cookieJar w" "marked v = marked w" "toLocaleDateString v = toLocaleDateString w"
    and "logContainer v = Some children"
  shows "fold (\<lambda>p v. addPostToUI (post_title p) (post_content p)
                      (toLocaleDateString v (post_created_at p)) b (post_id p)
                      (case post_likes p of None \<Rightarrow> 0 | Some n \<Rightarrow> n) v) ps v
         = v\<lparr>logContainer := Some (rev (map (loaded_node w b) ps) @ children)\<rparr>"
  using assms
proof (induction ps arbitrary: v children)
  case Nil
  then show ?case by simp
next
  case (Cons p ps)
  let ?v1 = "v\<lparr>logContainer := Some (loaded_node w b p # children)\<rparr>"
  have step: "addPostToUI (post_title p) (post_content p) (toLocaleDateString v (post_created_at p)) b
                (post_id p) (case post_likes p of None \<Rightarrow> 0 | Some n \<Rightarrow> n) v = ?v1"
    using Cons.prems loaded_node_cong[OF Cons.prems(1,2,3), of b p]
    by (simp add: addPostToUI_def loaded_node_def)
  have "fold (\<lambda>p v. addPostToUI (post_title p) (post_content p)
                      (toLocaleDateString v (post_created_at p)) b (post_id p)
                      (case post_likes p of None \<Rightarrow> 0 | Some n \<Rightarrow> n) v) ps ?v1
        = ?v1\<lparr>logContainer := Some (rev (map (loaded_node w b) ps) @ loaded_node w b p # children)\<rparr>"
    using Cons.prems by (intro Cons.IH) simp_all
  then show ?case using step by simp
qed

lemma loadPosts_operation_cases:
  assumes "logContainer w = Some children" "loadPosts_operation b w = (out, w1)"
  shows "(\<exists>ps. out = Resolved ps
            \<and> backend w (requests w @ [SelectAllPosts]) = Reply (DataPosts ps) None
            \<and> w1 = w\<lparr>requests := requests w @ [SelectAllPosts],
                      logContainer := Some (rev (map (loaded_node w b) ps) @ children)\<rparr>)
       \<or> ((\<forall>ps. out \<noteq> Resolved ps) \<and> same_page w w1)"
proof (cases "backend w (requests w @ [SelectAllPosts])")
  case NoReply
  then show ?thesis using assms by (auto simp: loadPosts_operation_def remote_def same_page_def)
next
  case (Reply data err)
  show ?thesis
  proof (cases err)
    case (Some e)
    then show ?thesis using assms Reply by (auto simp: loadPosts_operation_def remote_def same_page_def)
  next
    case None
    show ?thesis
    proof (cases data)
      case (DataPosts ps)
      let ?v = "w\<lparr>requests := requests w @ [SelectAllPosts]\<rparr>"
      have "fold (\<lambda>p v. addPostToUI (post_title p) (post_content p)
                      (toLocaleDateString v (post_created_at p)) b (post_id p)
                      (case post_likes p of None \<Rightarrow> 0 | Some n \<Rightarrow> n) v) ps ?v
            = ?v\<lparr>logContainer := Some (rev (map (loaded_node w b) ps) @ children)\<rparr>"
        using assms(1) by (intro render_all) simp_all
      then show ?thesis using assms Reply None DataPosts
        by (auto simp: loadPosts_operation_def remote_def)
    qed (use assms Reply None in \<open>auto simp: loadPosts_operation_def remote_def same_page_def\<close>)
  qed
qed

lemma same_page_trans: "same_page w v \<Longrightarrow> same_page v u \<Longrightarrow> same_page w u"
  by (simp add: same_page_def)

lemma same_page_random [simp]: "same_page w (v\<lparr>randomCalls := k\<rparr>) = same_page w v"
  by (simp add: same_page_def)

lemma posts_loaded_from_same:
  assumes "same_page w v" "posts_loaded b children v u"
  shows "posts_loaded b children w u"
proof -
  have "loaded_node v b = loaded_node w b"
    using assms(1) by (intro ext loaded_node_cong) (simp_all add: same_page_def)
  moreover have "backend v = backend w" using assms(1) by (simp add: same_page_def)
  ultimately show ?thesis using assms(2) by (simp add: posts_loaded_def)
qed

lemma load_attempt:
  assumes "logContainer w = Some children" "withTimeout (loadPosts_operation b) t name w = (r, w1)"
  shows "(case r of Inr ps \<Rightarrow> posts_loaded b children w w1 | Inl e \<Rightarrow> same_page w w1)"
proof -
  obtain out w0 where op: "loadPosts_operation b w = (out, w0)" by (cases "loadPosts_operation b w")
  from loadPosts_operation_cases[OF assms(1) op] assms(2) op show ?thesis
    by (cases out) (auto simp: withTimeout_def posts_loaded_def)
qed

lemma load_retry:
  assumes "logContainer w = Some children"
    and "retryFrom rnd (withTimeout (loadPosts_operation b) t name) N a le w = (res, w', evs)"
    and "Suc N - a = n"
  shows "(case res of Inr ps \<Rightarrow> posts_loaded b children w w' | Inl e \<Rightarrow> same_page w w')"
  using assms
proof (induction n arbitrary: a le w res w' evs)
  case 0
  then have "\<not> a \<le> N" by simp
  then have "retryFrom rnd (withTimeout (loadPosts_operation b) t name) N a le w = (Inl le, w, [])"
    by (subst retryFrom.simps) simp
  with 0 show ?case by (auto simp: same_page_def)
next
  case (Suc n)
  let ?op = "withTimeout (loadPosts_operation b) t name"
  have aN: "a \<le> N" using Suc.prems(3) by simp
  obtain r w1 where op: "?op w = (r, w1)" by (cases "?op w")
  note att = load_attempt[OF Suc.prems(1) op]
  show ?case
  proof (cases r)
    case (Inr v)
    have "retryFrom rnd ?op N a le w = (Inr v, w1, [Invoke a])"
      using op Inr aN by (intro retryFrom_success[where operation = ?op and w = w]) simp_all
    with Suc.prems(2) att Inr show ?thesis by auto
  next
    case (Inl e)
    then have f: "same_page w w1" using att by simp
    show ?thesis
    proof (cases "a = N \<or> \<not> isRetryableError w1 e")
      case True
      have "retryFrom rnd ?op N a le w = (Inl (Some e), w1, [Invoke a])"
        using op Inl aN True by (intro retryFrom_give_up[where operation = ?op and w = w]) simp_all
      with Suc.prems(2) f show ?thesis by auto
    next
      case False
      let ?w2 = "w1\<lparr>randomCalls := Suc (randomCalls w1)\<rparr>"
      obtain res2 w3 evs2 where rec: "retryFrom rnd ?op N (Suc a) (Some e) ?w2 = (res2, w3, evs2)"
        by (cases "retryFrom rnd ?op N (Suc a) (Some e) ?w2") auto
      have f2: "same_page w ?w2" using f by simp
      then have c: "logContainer ?w2 = Some children" using Suc.prems(1) by (simp add: same_page_def)
      have m: "Suc N - Suc a = n" using Suc.prems(3) by simp
      note ih = Suc.IH[OF c rec m]
      have "retryFrom rnd ?op N a le w
            = (res2, w3, Invoke a # Sleep (js_plus (js_times RETRY_DELAY_BASE (Math_pow 2 (a - 1))) (js_times (rnd (randomCalls w1)) 1000)) # evs2)"
        using op Inl False aN rec
        by (intro retryFrom_retry[where operation = ?op and w = w and e = e and ?w1.0 = w1]) auto
      with Suc.prems(2) have eq: "res = res2" "w' = w3" by simp_all
      show ?thesis
        using ih eq same_page_trans[OF f2] posts_loaded_from_same[OF f2]
        by (cases res2) auto
    qed
  qed
qed

lemma posts_loaded_after [simp]:
  "posts_loaded b ch w (alert n v) = posts_loaded b ch w v"
  "posts_loaded b ch w (logError t nm m v) = posts_loaded b ch w v"
  by (simp_all add: posts_loaded_def)

text \<open>
  Claim C7.  Let the page have a post list.  Whenever \<open>loadPosts\<close> returns true, the service
  answered its last call with a list of posts, and the post list then shows the elements
  of those posts in the reverse of the fetched order (each was prepended in turn, so the
  last fetched, the newest, is first), before whatever it showed already; this holds for
  every list, of any length.  And when the service answers the first call with a list of
  posts, \<open>loadPosts\<close> returns true and shows exactly that.
\<close>

theorem loadPosts_newest_first:
  assumes "logContainer w = Some children"
  shows "(\<forall>w' evs. loadPosts rnd isLoggedIn w = (Inr True, w', evs) \<longrightarrow>
            (\<exists>ps. backend w (requests w') = Reply (DataPosts ps) None
                 \<and> logContainer w' = Some (rev (map (loaded_node w isLoggedIn) ps) @ children)
                 \<and> map dataset_postId (rev (map (loaded_node w isLoggedIn) ps)) = rev (map post_id ps)))
       \<and> (\<forall>ps. backend w (requests w @ [SelectAllPosts]) = Reply (DataPosts ps) None \<longrightarrow>
            fst (loadPosts rnd isLoggedIn w) = Inr True
            \<and> logContainer (fst (snd (loadPosts rnd isLoggedIn w)))
                = Some (rev (map (loaded_node w isLoggedIn) ps) @ children))"
proof (intro conjI allI impI)
  fix w' evs
  assume lp: "loadPosts rnd isLoggedIn w = (Inr True, w', evs)"
  let ?op = "withTimeout (loadPosts_operation isLoggedIn) REQUEST_TIMEOUT ''Load Posts''"
  obtain res w1 evs1 where rt: "retryFrom rnd ?op MAX_RETRIES 1 None w = (res, w1, evs1)"
    by (cases "retryFrom rnd ?op MAX_RETRIES 1 None w") auto
  note lr = load_retry[OF assms rt refl]
  have "posts_loaded isLoggedIn children w w'"
  proof (cases res)
    case (Inr ps)
    then have "loadPosts rnd isLoggedIn w = (Inr True, w1, evs1)"
      using rt by (simp add: loadPosts_def not_null_def safeOperation_def retryWithBackoff_def)
    with lp lr Inr show ?thesis by simp
  next
    case (Inl thrown)
    then have "fst (loadPosts rnd isLoggedIn w) \<noteq> Inr True"
      using rt
      by (auto simp: loadPosts_def not_null_def safeOperation_def retryWithBackoff_def Let_def
            split: option.splits sum.splits)
    with lp show ?thesis by simp
  qed
  then obtain ps where "backend w (requests w') = Reply (DataPosts ps) None"
    "logContainer w' = Some (rev (map (loaded_node w isLoggedIn) ps) @ children)"
    by (auto simp: posts_loaded_def)
  moreover have "map dataset_postId (rev (map (loaded_node w isLoggedIn) ps)) = rev (map post_id ps)"
    by (simp add: rev_map loaded_node_def createPostElement_def Let_def comp_def)
  ultimately show "\<exists>ps. backend w (requests w') = Reply (DataPosts ps) None
                 \<and> logContainer w' = Some (rev (map (loaded_node w isLoggedIn) ps) @ children)
                 \<and> map dataset_postId (rev (map (loaded_node w isLoggedIn) ps)) = rev (map post_id ps)"
    by blast
next
  fix ps
  assume ok: "backend w (requests w @ [SelectAllPosts]) = Reply (DataPosts ps) None"
  let ?op = "withTimeout (loadPosts_operation isLoggedIn) REQUEST_TIMEOUT ''Load Posts''"
  let ?w1 = "w\<lparr>requests := requests w @ [SelectAllPosts],
                logContainer := Some (rev (map (loaded_node w isLoggedIn) ps) @ children)\<rparr>"
  obtain out w0 where op0: "loadPosts_operation isLoggedIn w = (out, w0)"
    by (cases "loadPosts_operation isLoggedIn w")
  have "out = Resolved ps \<and> w0 = ?w1"
    using loadPosts_operation_cases[OF assms op0] ok op0
    by (auto simp: loadPosts_operation_def remote_def)
  then have op: "?op w = (Inr ps, ?w1)" using op0 by simp
  have "retryFrom rnd ?op MAX_RETRIES 1 None w = (Inr ps, ?w1, [Invoke 1])"
    using op by (intro retryFrom_success[where operation = ?op and w = w]) (simp_all add: MAX_RETRIES_def)
  then have "loadPosts rnd isLoggedIn w = (Inr True, ?w1, [Invoke 1])"
    by (simp add: loadPosts_def not_null_def safeOperation_def retryWithBackoff_def)
  then show "fst (loadPosts rnd isLoggedIn w) = Inr True"
    "logContainer (fst (snd (loadPosts rnd isLoggedIn w)))
                = Some (rev (map (loaded_node w isLoggedIn) ps) @ children)"
    by simp_all
qed

theorem loadPosts_newest_first_witness:
  "logContainer library_world = Some []
   \<and> fst (loadPosts (\<lambda>i. 0) False library_world) = Inr True
   \<and> map_option (map dataset_postId) (logContainer (fst (snd (loadPosts (\<lambda>i. 0) False library_world))))
       = Some [''2'', ''1'']"
proof -
  have c: "logContainer library_world = Some []" by (simp add: library_world_def initial_world_def)
  have b: "backend library_world (requests library_world @ [SelectAllPosts])
           = Reply (DataPosts [first_post, second_post]) None"
    by (simp add: library_world_def)
  from loadPosts_newest_first[OF c, of "\<lambda>i. 0" False] b
  have r: "fst (loadPosts (\<lambda>i. 0) False library_world) = Inr True"
    and l: "logContainer (fst (snd (loadPosts (\<lambda>i. 0) False library_world)))
          = Some (rev (map (loaded_node library_world False) [first_post, second_post]) @ [])"
    by blast+
  have "map dataset_postId (rev (map (loaded_node library_world False) [first_post, second_post]))
        = [''2'', ''1'']"
    by (simp add: loaded_node_def createPostElement_def Let_def first_post_def second_post_def)
  then show ?thesis using c r l by simp
qed

section \<open>Drafts saved while typing\<close>

lemma blank_Some: "blank (Some v) \<longleftrightarrow> trim v = []"
  by (simp add: blank_def trim_empty_iff)

lemma run_append: "run (xs @ ys) w = run ys (run xs w)"
  by (simp add: run_def)

lemma run_Cons: "run (ev # evs) w = run evs (dispatch ev w)"
  by (simp add: run_def)

lemma run_Nil [simp]: "run [] w = w"
  by (simp add: run_def)

lemma setItem_fields [simp]:
  "postContent (setItem k v w) = postContent w" "postTitle (setItem k v w) = postTitle w"
  "contentTimer (setItem k v w) = contentTimer w" "titleTimer (setItem k v w) = titleTimer w"
  "localStorage (setItem k v w) = (localStorage w)(k \<mapsto> v)"
  "storageWrites (setItem k v w) = storageWrites w @ [(k, v)]"
  by (simp_all add: setItem_def)

lemma content_drafts_setItem:
  "content_drafts (setItem k v w)
     = content_drafts w @ (if k = ''draft_post_content'' then [v] else [])"
  by (simp add: content_drafts_def)

lemma content_drafts_timers [simp]:
  "content_drafts (w\<lparr>contentTimer := x\<rparr>) = content_drafts w"
  "content_drafts (w\<lparr>titleTimer := y\<rparr>) = content_drafts w"
  "content_drafts (w\<lparr>postContent := z\<rparr>) = content_drafts w"
  by (simp_all add: content_drafts_def)

lemma dispatch_keeps_element: "postContent (dispatch ev w) = None \<longleftrightarrow> postContent w = None"
  by (cases ev) (auto simp: Let_def split: option.splits prod.splits)

lemma run_keeps_element: "postContent (run evs w) = None \<longleftrightarrow> postContent w = None"
  by (induction evs arbitrary: w) (simp_all add: run_Cons dispatch_keeps_element)

lemma input_schedules:
  assumes "postContent w \<noteq> None" "\<not> blank (Some v)"
  shows "dispatch (InputContent v) w = w\<lparr>postContent := Some v, contentTimer := Some (AUTO_SAVE_DELAY, v)\<rparr>"
  using assms by (auto simp: handleInput_def debounce_call_def blank_Some)

lemma elapse_fires:
  assumes "contentTimer w = Some (left, v)" "left \<le> d"
  shows "localStorage (dispatch (Elapse d) w) ''draft_post_content'' = Some v"
    and "contentTimer (dispatch (Elapse d) w) = None"
    and "postContent (dispatch (Elapse d) w) = postContent w"
    and "content_drafts (dispatch (Elapse d) w) = content_drafts w @ [v]"
  using assms
  by (auto simp: advance_def Let_def content_drafts_setItem split: option.splits prod.splits)

lemma elapse_waits:
  assumes "contentTimer w = Some (left, v)" "d < left"
  shows "contentTimer (dispatch (Elapse d) w) = Some (left - d, v)"
    and "postContent (dispatch (Elapse d) w) = postContent w"
    and "content_drafts (dispatch (Elapse d) w) = content_drafts w"
  using assms
  by (auto simp: advance_def Let_def content_drafts_setItem split: option.splits prod.splits)

lemma elapse_idle:
  assumes "contentTimer w = None"
  shows "contentTimer (dispatch (Elapse d) w) = None"
    and "postContent (dispatch (Elapse d) w) = postContent w"
    and "content_drafts (dispatch (Elapse d) w) = content_drafts w"
    and "localStorage (dispatch (Elapse d) w) ''draft_post_content'' = localStorage w ''draft_post_content''"
  using assms
  by (auto simp: advance_def Let_def content_drafts_setItem split: option.splits prod.splits)

lemma blank_input_frame:
  assumes "blank (Some v)"
  shows "contentTimer (dispatch (InputContent v) w) = contentTimer w"
    and "titleTimer (dispatch (InputTitle v) w) = titleTimer w"
    and "localStorage (dispatch (InputContent v) w) = localStorage w"
    and "localStorage (dispatch (InputTitle v) w) = localStorage w"
    and "storageWrites (dispatch (InputContent v) w) = storageWrites w"
    and "storageWrites (dispatch (InputTitle v) w) = storageWrites w"
  using assms by (auto simp: handleInput_def blank_Some split: option.splits)

lemma quiet_step:
  assumes "quiet ev" "contentTimer w = None"
  shows "contentTimer (dispatch ev w) = None
       \<and> localStorage (dispatch ev w) ''draft_post_content'' = localStorage w ''draft_post_content''"
proof (cases ev)
  case (InputContent v)
  then show ?thesis using assms blank_input_frame[of v w] by (simp add: quiet_def)
next
  case (InputTitle v)
  then show ?thesis using assms by (simp split: option.splits)
next
  case FocusContent
  then show ?thesis using assms by (simp split: option.splits)
next
  case FocusTitle
  then show ?thesis using assms by (simp split: option.splits)
next
  case (Elapse d)
  then show ?thesis using assms elapse_idle[OF assms(2), of d] by simp
qed

lemma quiet_run:
  "list_all quiet evs \<Longrightarrow> contentTimer w = None \<Longrightarrow>
   localStorage (run evs w) ''draft_post_content'' = localStorage w ''draft_post_content''"
proof (induction evs arbitrary: w)
  case Nil
  then show ?case by simp
next
  case (Cons ev evs)
  then have q: "quiet ev" and qs: "list_all quiet evs" by simp_all
  from quiet_step[OF q Cons.prems(2)] Cons.IH[OF qs, of "dispatch ev w"]
  show ?case by (simp add: run_Cons)
qed

text \<open>
  Claim C9.  An \<open>input\<close> event whose field value is empty or only white space schedules no
  save: the pending time-out of the field, if any, is the one that was there before, and
  local storage and the record of writes to it are unchanged, for the content field and
  for the title field.  Hence, when no save is pending, no sequence of clearings of the
  content field, focus events, edits of the title and waiting changes the stored content
  draft: clearing the field after a draft was saved never erases or overwrites it.
\<close>

theorem blank_input_leaves_draft:
  "(blank (Some v) \<longrightarrow>
      contentTimer (dispatch (InputContent v) w) = contentTimer w
      \<and> titleTimer (dispatch (InputTitle v) w) = titleTimer w
      \<and> localStorage (dispatch (InputContent v) w) = localStorage w
      \<and> localStorage (dispatch (InputTitle v) w) = localStorage w
      \<and> storageWrites (dispatch (InputContent v) w) = storageWrites w
      \<and> storageWrites (dispatch (InputTitle v) w) = storageWrites w)
   \<and> (contentTimer w = None \<and> list_all quiet evs \<longrightarrow>
        localStorage (run evs w) ''draft_post_content'' = localStorage w ''draft_post_content'')"
  using blank_input_frame[of v w] quiet_run[of evs w] by blast

lemma typing_events_snoc:
  "typing_events (xs @ [(g, t)]) = typing_events xs @ [Elapse g, InputContent t]"
  by (simp add: typing_events_def)

lemma burst_step:
  assumes el: "postContent w \<noteq> None"
    and tm: "contentTimer w = None \<or> (\<exists>v. contentTimer w = Some (AUTO_SAVE_DELAY, v))"
    and g: "g < AUTO_SAVE_DELAY" and t: "\<not> blank (Some t)"
  shows "contentTimer (run [Elapse g, InputContent t] w) = Some (AUTO_SAVE_DELAY, t)
       \<and> postContent (run [Elapse g, InputContent t] w) = Some t
       \<and> content_drafts (run [Elapse g, InputContent t] w) = content_drafts w"
proof -
  let ?w1 = "dispatch (Elapse g) w"
  have a: "postContent ?w1 \<noteq> None" unfolding dispatch_keeps_element using el .
  have b: "content_drafts ?w1 = content_drafts w"
    using tm elapse_idle(3)[of w g] elapse_waits(3)[of w AUTO_SAVE_DELAY _ g] g by auto
  show ?thesis
    using input_schedules[OF a t] b by (simp add: run_Cons)
qed

lemma burst_run:
  assumes el: "postContent w \<noteq> None" and tm: "contentTimer w = None"
  shows "typing \<noteq> [] \<Longrightarrow> \<forall>(g, t) \<in> set typing. g < AUTO_SAVE_DELAY \<and> \<not> blank (Some t) \<Longrightarrow>
         contentTimer (run (typing_events typing) w) = Some (AUTO_SAVE_DELAY, snd (last typing))
       \<and> postContent (run (typing_events typing) w) = Some (snd (last typing))
       \<and> content_drafts (run (typing_events typing) w) = content_drafts w"
proof (induction typing rule: rev_induct)
  case Nil
  then show ?case by simp
next
  case (snoc x xs)
  obtain g t where x: "x = (g, t)" by (cases x)
  have gt: "g < AUTO_SAVE_DELAY" "\<not> blank (Some t)" using snoc.prems(2) x by auto
  let ?u = "run (typing_events xs) w"
  have el': "postContent ?u \<noteq> None" using el by (simp add: run_keeps_element)
  have st: "(contentTimer ?u = None \<or> (\<exists>v. contentTimer ?u = Some (AUTO_SAVE_DELAY, v)))
          \<and> content_drafts ?u = content_drafts w"
  proof (cases "xs = []")
    case True
    then show ?thesis using tm by (simp add: typing_events_def)
  next
    case False
    then show ?thesis using snoc.IH snoc.prems(2) by auto
  qed
  from burst_step[OF el' _ gt] st
  show ?case by (simp add: x typing_events_snoc run_append)
qed

lemma focus_restores:
  assumes "postContent u = Some t" "blank (Some t)" "localStorage u ''draft_post_content'' = Some draft"
    "draft \<noteq> []"
  shows "postContent (dispatch FocusContent u) = Some draft"
  using assms by (simp add: blank_Some)

lemma nonblank_nonempty: "\<not> blank (Some v) \<Longrightarrow> v \<noteq> []"
  by (auto simp: blank_def)

lemma removeItem_fields [simp]:
  "localStorage (removeItem k w) = (localStorage w)(k := None)"
  by (simp add: removeItem_def)

lemma submit_clears_drafts:
  assumes "postContent u \<noteq> None" "submitPost_autosave rnd u = (Inr True, u', tr)"
  shows "localStorage u' ''draft_post_content'' = None \<and> localStorage u' ''draft_post_title'' = None"
proof -
  obtain r w1 evs where sp: "submitPost rnd u = (r, w1, evs)" by (cases "submitPost rnd u") auto
  show ?thesis
  proof (cases "r = Inr True")
    case True
    then show ?thesis using assms sp by (auto simp: submitPost_autosave_def)
  next
    case False
    then have "submitPost_autosave rnd u = (r, w1, evs)"
      using assms(1) sp by (cases r) (auto simp: submitPost_autosave_def split: bool.splits)
    then show ?thesis using assms(2) False by simp
  qed
qed

text \<open>
  Claim C8, as amended.  On a page with a content field, after any events, an edit that
  leaves text \<open>v\<close> other than white space in the field followed by at least
  \<open>AUTO_SAVE_DELAY\<close> = 2000 ms with no event stores \<open>v\<close> under \<open>draft_post_content\<close>, as the
  last write of that key, and a focus on the field once it has been emptied puts \<open>v\<close> back
  into it.  A burst of such edits, each less than 2000 ms after the one before, started
  with no save pending and followed by that wait, writes the key exactly once, with the
  last text typed.  A focus on a blank field restores any stored non-empty draft, and a
  submission that returns true removes both draft keys.
\<close>

theorem autosave_persists_final_text:
  assumes "postContent w \<noteq> None" and "AUTO_SAVE_DELAY \<le> d"
  shows "(\<not> blank (Some v) \<longrightarrow>
            localStorage (run (evs @ [InputContent v, Elapse d]) w) ''draft_post_content'' = Some v
            \<and> last (content_drafts (run (evs @ [InputContent v, Elapse d]) w)) = v
            \<and> postContent (run (evs @ [InputContent v, Elapse d, InputContent [], FocusContent]) w) = Some v)
       \<and> (contentTimer w = None \<and> typing \<noteq> []
            \<and> (\<forall>(g, t) \<in> set typing. g < AUTO_SAVE_DELAY \<and> \<not> blank (Some t)) \<longrightarrow>
            content_drafts (run (typing_events typing @ [Elapse d]) w)
              = content_drafts w @ [snd (last typing)]
            \<and> localStorage (run (typing_events typing @ [Elapse d]) w) ''draft_post_content''
              = Some (snd (last typing)))
       \<and> (\<forall>u t draft. postContent u = Some t \<and> blank (Some t)
              \<and> localStorage u ''draft_post_content'' = Some draft \<and> draft \<noteq> [] \<longrightarrow>
            postContent (dispatch FocusContent u) = Some draft)
       \<and> (\<forall>rnd u u' tr. postContent u \<noteq> None \<and> submitPost_autosave rnd u = (Inr True, u', tr) \<longrightarrow>
            localStorage u' ''draft_post_content'' = None \<and> localStorage u' ''draft_post_title'' = None)"
proof (intro conjI impI allI)
  assume nb: "\<not> blank (Some v)"
  let ?u = "run evs w"
  have el: "postContent ?u \<noteq> None" using assms(1) by (simp add: run_keeps_element)
  let ?u1 = "dispatch (InputContent v) ?u"
  have u1: "contentTimer ?u1 = Some (AUTO_SAVE_DELAY, v)" "postContent ?u1 = Some v"
    using input_schedules[OF el nb] by simp_all
  let ?u2 = "dispatch (Elapse d) ?u1"
  note f = elapse_fires[OF u1(1) assms(2)]
  have r: "run (evs @ [InputContent v, Elapse d]) w = ?u2" by (simp add: run_append run_Cons)
  show "localStorage (run (evs @ [InputContent v, Elapse d]) w) ''draft_post_content'' = Some v"
    unfolding r using f(1) .
  show "last (content_drafts (run (evs @ [InputContent v, Elapse d]) w)) = v"
    unfolding r using f(4) by simp
  let ?u3 = "dispatch (InputContent []) ?u2"
  have b: "blank (Some [])" by (simp add: blank_def)
  have p2: "postContent ?u2 = Some v" using f(3) u1(2) by simp
  have p3: "postContent ?u3 = Some []" using p2 by simp
  have s3: "localStorage ?u3 ''draft_post_content'' = Some v"
    using blank_input_frame(3)[OF b, of ?u2] f(1) by simp
  have "postContent (dispatch FocusContent ?u3) = Some v"
    using focus_restores[OF p3 b s3 nonblank_nonempty[OF nb]] .
  then show "postContent (run (evs @ [InputContent v, Elapse d, InputContent [], FocusContent]) w) = Some v"
    by (simp add: run_append run_Cons)
next
  assume h: "contentTimer w = None \<and> typing \<noteq> []
            \<and> (\<forall>(g, t) \<in> set typing. g < AUTO_SAVE_DELAY \<and> \<not> blank (Some t))"
  let ?u = "run (typing_events typing) w"
  from burst_run[OF assms(1), of typing] h
  have t: "contentTimer ?u = Some (AUTO_SAVE_DELAY, snd (last typing))"
    and c: "content_drafts ?u = content_drafts w" by simp_all
  note f = elapse_fires[OF t assms(2)]
  show "content_drafts (run (typing_events typing @ [Elapse d]) w) = content_drafts w @ [snd (last typing)]"
    using f(4) c by (simp add: run_append run_Cons)
  show "localStorage (run (typing_events typing @ [Elapse d]) w) ''draft_post_content'' = Some (snd (last typing))"
    using f(1) by (simp add: run_append run_Cons)
next
  fix u :: world and t draft
  assume "postContent u = Some t \<and> blank (Some t)
              \<and> localStorage u ''draft_post_content'' = Some draft \<and> draft \<noteq> []"
  then show "postContent (dispatch FocusContent u) = Some draft"
    using focus_restores by blast
next
  fix rnd and u u' :: world and tr
  assume h: "postContent u \<noteq> None \<and> submitPost_autosave rnd u = (Inr True, u', tr)"
  then show "localStorage u' ''draft_post_content'' = None" "localStorage u' ''draft_post_title'' = None"
    using submit_clears_drafts[of u rnd u' tr] by simp_all
qed

text \<open>
  Without the condition on the final text the property fails: typing \<open>abc\<close>, clearing the
  field and waiting 2000 ms leaves the field empty and the draft \<open>abc\<close> in storage, so the
  stored value is not the final text of the field.
\<close>

theorem autosave_keeps_stale_draft:
  "postContent (run [InputContent ''abc'', InputContent [], Elapse 2000] initial_world) = Some []
   \<and> localStorage (run [InputContent ''abc'', InputContent [], Elapse 2000] initial_world)
       ''draft_post_content'' = Some ''abc''"
  by (simp add: run_def initial_world_def handleInput_def debounce_call_def advance_def
      AUTO_SAVE_DELAY_def trim_def is_space_def setItem_def)

text \<open>
  A submission with both fields filled in, accepted by the service at the first attempt,
  returns true.
\<close>

lemma submitPost_success:
  assumes t: "postTitle w = Some t" and c: "postContent w = Some c"
    and nt: "\<not> blank (Some t)" and nc: "\<not> blank (Some c)"
    and ok: "backend w (requests w @ [InsertPost (trim t) (trim c)]) = Reply (DataPosts (p # ps)) None"
  shows "fst (submitPost rnd w) = Inr True"
proof -
  let ?op = "withTimeout submitPost_operation REQUEST_TIMEOUT ''Submit Post''"
  have v: "validateFields [(''Title'', Some t), (''Content'', Some c)] w = (True, w)"
    using nt nc blank_test[of "Some t"] blank_test[of "Some c"] by simp
  obtain w1 where "submitPost_operation w = (Resolved p, w1)"
    using t c v ok by (simp add: submitPost_operation_def remote_def Let_def)
  then have op: "?op w = (Inr p, w1)" by simp
  have "retryFrom rnd ?op MAX_RETRIES 1 None w = (Inr p, w1, [Invoke 1])"
    using op by (intro retryFrom_success[where operation = ?op and w = w]) (simp_all add: MAX_RETRIES_def)
  then show ?thesis
    by (simp add: submitPost_def not_null_def safeOperation_def retryWithBackoff_def)
qed

theorem blank_input_leaves_draft_witness:
  "blank (Some ''  '')
   \<and> localStorage (dispatch (InputContent ''  '') draft_world) = localStorage draft_world
   \<and> contentTimer (dispatch (InputContent ''  '') draft_world) = None
   \<and> list_all quiet [InputContent [], Elapse 5000, FocusContent, InputContent ''  '', Elapse 5000]
   \<and> localStorage (run [InputContent [], Elapse 5000, FocusContent, InputContent ''  '', Elapse 5000] draft_world)
        ''draft_post_content'' = Some ''abc''"
proof -
  have b: "blank (Some ''  '')" "blank (Some [])" by (simp_all add: blank_def is_space_def)
  have t: "contentTimer draft_world = None" by (simp add: draft_world_def initial_world_def)
  have s: "localStorage draft_world ''draft_post_content'' = Some ''abc''"
    by (simp add: draft_world_def)
  have q: "list_all quiet [InputContent [], Elapse 5000, FocusContent, InputContent ''  '', Elapse 5000]"
    using b by (simp add: quiet_def)
  show ?thesis
    using blank_input_leaves_draft[of "''  ''" draft_world
        "[InputContent [], Elapse 5000, FocusContent, InputContent ''  '', Elapse 5000]"] b t s q
    by simp
qed

theorem autosave_persists_final_text_witness:
  "postContent initial_world \<noteq> None \<and> AUTO_SAVE_DELAY \<le> 2000 \<and> \<not> blank (Some ''abc'')
   \<and> localStorage (run ([InputContent ''a'', Elapse 3000] @ [InputContent ''abc'', Elapse 2000]) initial_world)
        ''draft_post_content'' = Some ''abc''
   \<and> postContent (run ([InputContent ''a'', Elapse 3000]
          @ [InputContent ''abc'', Elapse 2000, InputContent [], FocusContent]) initial_world) = Some ''abc''
   \<and> content_drafts (run (typing_events [(0, ''a''), (150, ''ab''), (1999, ''abc'')] @ [Elapse 2000]) initial_world)
        = [''abc'']
   \<and> fst (submitPost_autosave (\<lambda>i. 0) writer_world) = Inr True
   \<and> localStorage writer_world ''draft_post_content'' = Some ''**bold**''
   \<and> localStorage (fst (snd (submitPost_autosave (\<lambda>i. 0) writer_world))) ''draft_post_content'' = None
   \<and> localStorage (fst (snd (submitPost_autosave (\<lambda>i. 0) writer_world))) ''draft_post_title'' = None"
proof -
  have el: "postContent initial_world \<noteq> None" by (simp add: initial_world_def)
  have d: "AUTO_SAVE_DELAY \<le> 2000" by (simp add: AUTO_SAVE_DELAY_def)
  have nb: "\<not> blank (Some ''abc'')" "\<not> blank (Some ''a'')" "\<not> blank (Some ''ab'')"
    by (simp_all add: blank_def is_space_def)
  have tm: "contentTimer initial_world = None" "content_drafts initial_world = []"
    by (simp_all add: initial_world_def content_drafts_def)
  have ty: "\<forall>(g, t) \<in> set [(0, ''a''), (150, ''ab''), (1999, ''abc'')]. g < AUTO_SAVE_DELAY \<and> \<not> blank (Some t)"
    using nb by (simp add: AUTO_SAVE_DELAY_def)
  note inst = autosave_persists_final_text[OF el d, of "''abc''" "[InputContent ''a'', Elapse 3000]"
      "[(0, ''a''), (150, ''ab''), (1999, ''abc'')]"]
  have a: "localStorage (run ([InputContent ''a'', Elapse 3000] @ [InputContent ''abc'', Elapse 2000]) initial_world)
        ''draft_post_content'' = Some ''abc''"
    and b: "postContent (run ([InputContent ''a'', Elapse 3000]
          @ [InputContent ''abc'', Elapse 2000, InputContent [], FocusContent]) initial_world) = Some ''abc''"
    using inst nb by blast+
  have c: "content_drafts (run (typing_events [(0, ''a''), (150, ''ab''), (1999, ''abc'')] @ [Elapse 2000]) initial_world)
        = [''abc'']"
    using inst tm ty by simp
  have wt: "postTitle writer_world = Some ''Hello''" "postContent writer_world = Some ''**bold**''"
    "requests writer_world = []"
    "localStorage writer_world ''draft_post_content'' = Some ''**bold**''"
    by (simp_all add: writer_world_def initial_world_def)
  have nbw: "\<not> blank (Some ''Hello'')" "\<not> blank (Some ''**bold**'')"
    by (simp_all add: blank_def is_space_def)
  have "fst (submitPost (\<lambda>i. 0) writer_world) = Inr True"
    by (rule submitPost_success[OF wt(1,2) nbw])
       (simp add: writer_world_def)
  then obtain u' tr where sp: "submitPost (\<lambda>i. 0) writer_world = (Inr True, u', tr)"
    by (cases "submitPost (\<lambda>i. 0) writer_world") auto
  then obtain u'' where sa: "submitPost_autosave (\<lambda>i. 0) writer_world = (Inr True, u'', tr)"
    using wt(2) by (simp add: submitPost_autosave_def)
  have e: "postContent writer_world \<noteq> None" using wt(2) by simp
  from inst e sa have "localStorage u'' ''draft_post_content'' = None \<and> localStorage u'' ''draft_post_title'' = None"
    by blast
  then show ?thesis using el d nb(1) a b c sa wt(4) by simp
qed

section \<open>Attempts and delays of the retry wrapper\<close>

lemma retryFrom_all_fail:
  assumes fails: "\<forall>k<N. \<exists>e. fst (operation (attempt_state operation k w0)) = Inl e
      \<and> isRetryableError (snd (operation (attempt_state operation k w0))) e"
  shows "a < N \<Longrightarrow> N - Suc a = n \<Longrightarrow>
    \<exists>e evs. retryFrom rnd operation N (Suc a) le (attempt_state operation a w0)
        = (Inl (Some e), snd (operation (attempt_state operation (N - 1) w0)), evs)
      \<and> fst (operation (attempt_state operation (N - 1) w0)) = Inl e
      \<and> invocations evs = [Suc a..<Suc N]
      \<and> (\<exists>rest. evs = Invoke (Suc a) # rest)
      \<and> (\<forall>k. Suc a < k \<and> k \<le> N \<longrightarrow>
            delay_before k evs =
              Some (js_plus (js_times RETRY_DELAY_BASE (Math_pow 2 (k - 2)))
                     (js_times (rnd (randomCalls (snd (operation (attempt_state operation (k - 2) w0))))) 1000)))"
proof (induction n arbitrary: a le)
  case 0
  then have aN: "Suc a = N" by simp
  then have a1: "a = N - 1" by simp
  let ?w = "attempt_state operation a w0"
  obtain e where e: "fst (operation ?w) = Inl e" using fails 0(1) by blast
  then have op: "operation ?w = (Inl e, snd (operation ?w))" by (metis prod.collapse)
  have "retryFrom rnd operation N (Suc a) le ?w = (Inl (Some e), snd (operation ?w), [Invoke (Suc a)])"
    using op aN by (intro retryFrom_give_up[where operation = operation and w = ?w]) simp_all
  then show ?case using e aN a1 by (intro exI[of _ e] exI[of _ "[Invoke (Suc a)]"]) simp
next
  case (Suc n)
  then have lt: "Suc a < N" by simp
  let ?w = "attempt_state operation a w0"
  let ?w1 = "snd (operation ?w)"
  obtain e where e: "fst (operation ?w) = Inl e" and re: "isRetryableError ?w1 e"
    using fails Suc.prems(1) by blast
  then have op: "operation ?w = (Inl e, ?w1)" by (metis prod.collapse)
  have w2: "?w1\<lparr>randomCalls := Suc (randomCalls ?w1)\<rparr> = attempt_state operation (Suc a) w0"
    by (simp add: Let_def)
  have "N - Suc (Suc a) = n" using Suc.prems by simp
  from Suc.IH[OF lt this, of "Some e"]
  obtain e' evs where
    rec: "retryFrom rnd operation N (Suc (Suc a)) (Some e) (attempt_state operation (Suc a) w0)
        = (Inl (Some e'), snd (operation (attempt_state operation (N - 1) w0)), evs)"
    and last: "fst (operation (attempt_state operation (N - 1) w0)) = Inl e'"
    and inv: "invocations evs = [Suc (Suc a)..<Suc N]"
    and hd: "\<exists>rest. evs = Invoke (Suc (Suc a)) # rest"
    and del: "\<forall>k. Suc (Suc a) < k \<and> k \<le> N \<longrightarrow>
            delay_before k evs =
              Some (js_plus (js_times RETRY_DELAY_BASE (Math_pow 2 (k - 2)))
                     (js_times (rnd (randomCalls (snd (operation (attempt_state operation (k - 2) w0))))) 1000))"
    by blast
  let ?d = "js_plus (js_times RETRY_DELAY_BASE (Math_pow 2 (Suc a - 1))) (js_times (rnd (randomCalls ?w1)) 1000)"
  let ?evs = "Invoke (Suc a) # Sleep ?d # evs"
  have run: "retryFrom rnd operation N (Suc a) le ?w
      = (Inl (Some e'), snd (operation (attempt_state operation (N - 1) w0)), ?evs)"
    using rec unfolding w2[symmetric]
    by (intro retryFrom_retry[where operation = operation and w = ?w, OF op lt re])
  have inv': "invocations ?evs = [Suc a..<Suc N]"
    using inv lt by (simp add: upt_conv_Cons)
  obtain rest where evs: "evs = Invoke (Suc (Suc a)) # rest" using hd by blast
  have del': "delay_before k ?evs =
              Some (js_plus (js_times RETRY_DELAY_BASE (Math_pow 2 (k - 2)))
                     (js_times (rnd (randomCalls (snd (operation (attempt_state operation (k - 2) w0))))) 1000))"
    if k: "Suc a < k \<and> k \<le> N" for k
  proof (cases "k = Suc (Suc a)")
    case True
    have "delay_before k ?evs = Some ?d" using True evs by simp
    moreover have "Suc a - 1 = k - 2" "a = k - 2" using True by simp_all
    ultimately show ?thesis by simp
  next
    case False
    then have "Suc (Suc a) < k \<and> k \<le> N" using k by simp
    moreover have "delay_before k ?evs = delay_before k evs" using False evs by simp
    ultimately show ?thesis using del by simp
  qed
  show ?case
    using run last inv' del'
    by (intro exI[of _ e'] exI[of _ ?evs]) simp
qed

text \<open>
  Below \<open>2 ^ 53\<close> every whole number is a double, so rounding cannot leave the interval.
\<close>

lemma backoff_delay_bounds:
  assumes r: "0 \<le> r" "r < 1" and b: "RETRY_DELAY_BASE * 2 ^ n + 1000 \<le> 2 ^ 53"
  shows "RETRY_DELAY_BASE * 2 ^ n \<le> js_plus (js_times RETRY_DELAY_BASE (Math_pow 2 n)) (js_times r 1000)"
    and "js_plus (js_times RETRY_DELAY_BASE (Math_pow 2 n)) (js_times r 1000) \<le> RETRY_DELAY_BASE * 2 ^ n + 1000"
proof -
  have b': "1000 * 2 ^ n + 1000 \<le> (2::real) ^ 53" using b by (simp add: RETRY_DELAY_BASE_def)
  have p: "Math_pow 2 n = 2 ^ n"
    using fl_integer[of "2 ^ n"] b' by (simp add: Math_pow_def)
  have t: "js_times RETRY_DELAY_BASE (Math_pow 2 n) = 1000 * 2 ^ n"
    using fl_integer[of "1000 * 2 ^ n"] b' by (simp add: js_times_def p RETRY_DELAY_BASE_def)
  have j: "0 \<le> js_times r 1000 \<and> js_times r 1000 \<le> 1000"
    using fl_between[of 0 "r * 1000" 1000] r by (simp add: js_times_def)
  have "real_of_int (1000 * 2 ^ n) \<le> fl (1000 * 2 ^ n + js_times r 1000)
      \<and> fl (1000 * 2 ^ n + js_times r 1000) \<le> real_of_int (1000 * 2 ^ n + 1000)"
    using j b' by (intro fl_between) simp_all
  then show "RETRY_DELAY_BASE * 2 ^ n \<le> js_plus (js_times RETRY_DELAY_BASE (Math_pow 2 n)) (js_times r 1000)"
    and "js_plus (js_times RETRY_DELAY_BASE (Math_pow 2 n)) (js_times r 1000) \<le> RETRY_DELAY_BASE * 2 ^ n + 1000"
    unfolding t by (simp_all add: js_plus_def RETRY_DELAY_BASE_def)
qed

lemma attempt_state_counter:
  assumes "\<forall>u. c (snd (operation u)) = Suc (c u)" "\<forall>u n. c (u\<lparr>randomCalls := n\<rparr>) = c u"
  shows "c (attempt_state operation k w) = c w + k"
  using assms by (induction k) (simp_all add: Let_def)

lemma attempt_state_invariant:
  assumes "P w" "\<And>u. P u \<Longrightarrow> P (snd (operation u))" "\<And>u n. P u \<Longrightarrow> P (u\<lparr>randomCalls := n\<rparr>)"
  shows "P (attempt_state operation k w)"
  using assms by (induction k) (simp_all add: Let_def)

text \<open>
  Claim C1, as amended.  Let \<open>N \<ge> 1\<close> be the attempt bound and let every number the random
  source yields lie in \<open>[0, 1)\<close>.  If every invocation that takes place fails with an error
  classified retryable, \<open>retryWithBackoff\<close> invokes the operation exactly \<open>N\<close> times, each
  time in the state the invocation before it left: the final state is the one the \<open>N\<close>-th
  invocation leaves, the error thrown is the one that invocation failed with, the attempts
  are numbered \<open>1, \<dots>, N\<close>, and every counter that each invocation raises by one ends \<open>N\<close>
  higher.  For every \<open>k\<close> with \<open>1 < k \<le> N\<close> the delay slept before attempt \<open>k\<close> is the sum, in
  double arithmetic, of \<open>RETRY_DELAY_BASE * 2 ^ (k - 2)\<close> and the jitter \<^verbatim>\<open>Math.random() * 1000\<close>;
  as long as \<open>RETRY_DELAY_BASE * 2 ^ (k - 2) + 1000\<close> is at most \<open>2 ^ 53\<close> it lies in the closed
  interval from \<open>RETRY_DELAY_BASE * 2 ^ (k - 2)\<close> to \<open>RETRY_DELAY_BASE * 2 ^ (k - 2) + 1000\<close>.  If
  the first failure is classified non-retryable the operation is invoked exactly once: the
  result is that error and the state that one invocation left.
\<close>

theorem retryWithBackoff_attempts_and_delays:
  assumes "1 \<le> N" and "\<forall>i. 0 \<le> rnd i \<and> rnd i < 1"
  shows "((\<forall>k<N. \<exists>e. fst (operation (attempt_state operation k w)) = Inl e
              \<and> isRetryableError (snd (operation (attempt_state operation k w))) e) \<longrightarrow>
           (\<exists>e evs. retryWithBackoff rnd operation N w
                 = (Inl (Some e), snd (operation (attempt_state operation (N - 1) w)), evs)
              \<and> fst (operation (attempt_state operation (N - 1) w)) = Inl e
              \<and> invocations evs = [1..<Suc N]
              \<and> (\<forall>c :: world \<Rightarrow> nat.
                    (\<forall>u. c (snd (operation u)) = Suc (c u)) \<and> (\<forall>u n. c (u\<lparr>randomCalls := n\<rparr>) = c u) \<longrightarrow>
                    c (snd (operation (attempt_state operation (N - 1) w))) = c w + N)
              \<and> (\<forall>k. 1 < k \<and> k \<le> N \<longrightarrow>
                    (\<exists>r d. 0 \<le> r \<and> r < 1 \<and> delay_before k evs = Some d
                       \<and> d = js_plus (js_times RETRY_DELAY_BASE (Math_pow 2 (k - 2))) (js_times r 1000)
                       \<and> (RETRY_DELAY_BASE * 2 ^ (k - 2) + 1000 \<le> 2 ^ 53 \<longrightarrow>
                            RETRY_DELAY_BASE * 2 ^ (k - 2) \<le> d
                            \<and> d \<le> RETRY_DELAY_BASE * 2 ^ (k - 2) + 1000)))))
       \<and> (\<forall>e w1. operation w = (Inl e, w1) \<and> \<not> isRetryableError w1 e \<longrightarrow>
             retryWithBackoff rnd operation N w = (Inl (Some e), w1, [Invoke 1]))"
proof (intro conjI impI allI)
  assume fails: "\<forall>k<N. \<exists>e. fst (operation (attempt_state operation k w)) = Inl e
              \<and> isRetryableError (snd (operation (attempt_state operation k w))) e"
  let ?w' = "snd (operation (attempt_state operation (N - 1) w))"
  have "0 < N" "N - Suc 0 = N - 1" using assms(1) by simp_all
  from retryFrom_all_fail[OF fails this, of rnd None]
  obtain e evs where
    run: "retryWithBackoff rnd operation N w = (Inl (Some e), ?w', evs)"
    and last: "fst (operation (attempt_state operation (N - 1) w)) = Inl e"
    and inv: "invocations evs = [1..<Suc N]"
    and del: "\<forall>k. 1 < k \<and> k \<le> N \<longrightarrow>
            delay_before k evs =
              Some (js_plus (js_times RETRY_DELAY_BASE (Math_pow 2 (k - 2)))
                     (js_times (rnd (randomCalls (snd (operation (attempt_state operation (k - 2) w))))) 1000))"
    unfolding retryWithBackoff_def by auto
  have cnt: "c ?w' = c w + N"
    if "(\<forall>u. c (snd (operation u)) = Suc (c u)) \<and> (\<forall>u n. c (u\<lparr>randomCalls := n\<rparr>) = c u)"
    for c :: "world \<Rightarrow> nat"
  proof -
    have "c ?w' = Suc (c (attempt_state operation (N - 1) w))" using that by blast
    also have "\<dots> = Suc (c w + (N - 1))"
      using attempt_state_counter[of c operation "N - 1" w] that by simp
    finally show ?thesis using assms(1) by simp
  qed
  have dl: "\<exists>r d. 0 \<le> r \<and> r < 1 \<and> delay_before k evs = Some d
                       \<and> d = js_plus (js_times RETRY_DELAY_BASE (Math_pow 2 (k - 2))) (js_times r 1000)
                       \<and> (RETRY_DELAY_BASE * 2 ^ (k - 2) + 1000 \<le> 2 ^ 53 \<longrightarrow>
                            RETRY_DELAY_BASE * 2 ^ (k - 2) \<le> d
                            \<and> d \<le> RETRY_DELAY_BASE * 2 ^ (k - 2) + 1000)"
    if k: "1 < k \<and> k \<le> N" for k
  proof -
    let ?r = "rnd (randomCalls (snd (operation (attempt_state operation (k - 2) w))))"
    let ?d = "js_plus (js_times RETRY_DELAY_BASE (Math_pow 2 (k - 2))) (js_times ?r 1000)"
    have r: "0 \<le> ?r" "?r < 1" using assms(2) by simp_all
    have "delay_before k evs = Some ?d" using del k by blast
    then show ?thesis
      using r backoff_delay_bounds[OF r, of "k - 2"]
      by (intro exI[of _ ?r] exI[of _ ?d]) simp
  qed
  show "\<exists>e evs. retryWithBackoff rnd operation N w
                 = (Inl (Some e), snd (operation (attempt_state operation (N - 1) w)), evs)
              \<and> fst (operation (attempt_state operation (N - 1) w)) = Inl e
              \<and> invocations evs = [1..<Suc N]
              \<and> (\<forall>c :: world \<Rightarrow> nat.
                    (\<forall>u. c (snd (operation u)) = Suc (c u)) \<and> (\<forall>u n. c (u\<lparr>randomCalls := n\<rparr>) = c u) \<longrightarrow>
                    c (snd (operation (attempt_state operation (N - 1) w))) = c w + N)
              \<and> (\<forall>k. 1 < k \<and> k \<le> N \<longrightarrow>
                    (\<exists>r d. 0 \<le> r \<and> r < 1 \<and> delay_before k evs = Some d
                       \<and> d = js_plus (js_times RETRY_DELAY_BASE (Math_pow 2 (k - 2))) (js_times r 1000)
                       \<and> (RETRY_DELAY_BASE * 2 ^ (k - 2) + 1000 \<le> 2 ^ 53 \<longrightarrow>
                            RETRY_DELAY_BASE * 2 ^ (k - 2) \<le> d
                            \<and> d \<le> RETRY_DELAY_BASE * 2 ^ (k - 2) + 1000)))"
    using run last inv cnt dl by (intro exI[of _ e] exI[of _ evs]) blast
next
  fix e w1 assume "operation w = (Inl e, w1) \<and> \<not> isRetryableError w1 e"
  then show "retryWithBackoff rnd operation N w = (Inl (Some e), w1, [Invoke 1])"
    unfolding retryWithBackoff_def using assms(1) by (simp add: retryFrom_not_retryable)
qed

lemma load_unavailable:
  assumes "backend u = backend unavailable_world" "isOnline u"
  shows "withTimeout (loadPosts_operation b) REQUEST_TIMEOUT ''Load Posts'' u
      = (Inl \<lparr>status = Some 503, message = Some ''Service Unavailable''\<rparr>,
         u\<lparr>requests := requests u @ [SelectAllPosts]\<rparr>)"
    and "isRetryableError (u\<lparr>requests := requests u @ [SelectAllPosts]\<rparr>)
           \<lparr>status = Some 503, message = Some ''Service Unavailable''\<rparr>"
  using assms
  by (simp_all add: withTimeout_def loadPosts_operation_def remote_def unavailable_world_def
        isRetryableError_def retryableStatusCodes_def)

lemma load_unavailable_always:
  "\<forall>k<N. \<exists>e. fst (withTimeout (loadPosts_operation b) REQUEST_TIMEOUT ''Load Posts''
                      (attempt_state (withTimeout (loadPosts_operation b) REQUEST_TIMEOUT ''Load Posts'') k unavailable_world)) = Inl e
      \<and> isRetryableError (snd (withTimeout (loadPosts_operation b) REQUEST_TIMEOUT ''Load Posts''
                      (attempt_state (withTimeout (loadPosts_operation b) REQUEST_TIMEOUT ''Load Posts'') k unavailable_world))) e"
proof (intro allI impI)
  fix k
  let ?op = "withTimeout (loadPosts_operation b) REQUEST_TIMEOUT ''Load Posts''"
  let ?P = "\<lambda>u. backend u = backend unavailable_world \<and> isOnline u"
  have "?P (attempt_state ?op k unavailable_world)"
  proof (rule attempt_state_invariant[where P = ?P])
    show "?P unavailable_world" by (simp add: unavailable_world_def initial_world_def)
    show "?P (snd (?op u))" if "?P u" for u using load_unavailable(1)[where u = u and b = b] that by simp
    show "?P (u\<lparr>randomCalls := n\<rparr>)" if "?P u" for u n using that by simp
  qed
  then show "\<exists>e. fst (?op (attempt_state ?op k unavailable_world)) = Inl e
      \<and> isRetryableError (snd (?op (attempt_state ?op k unavailable_world))) e"
    using load_unavailable(1)[where u = "attempt_state ?op k unavailable_world" and b = b]
      load_unavailable(2)[where u = "attempt_state ?op k unavailable_world"] by simp
qed

lemmas fl_eval = fl_def ulp_def exponent_def round_half_even_def binade_up_numeral binade_down_numeral

text \<open>
  The upper end of the interval is reached, so the half-open interval of the claim does
  not hold: when \<^verbatim>\<open>Math.random()\<close> returns the largest double below 1, the sum for the delay
  before attempt 3 is a tie between two doubles and rounds to 3000.  Far beyond \<open>2 ^ 53\<close> the
  closed interval fails too: the delay before attempt 51 is 1024 above its base.
\<close>

theorem retryWithBackoff_delay_outside_interval:
  "delay_before 3 (snd (snd (retryWithBackoff (\<lambda>i. 1 - 1 / 2 ^ 52)
       (withTimeout (loadPosts_operation False) REQUEST_TIMEOUT ''Load Posts'') 3 unavailable_world)))
     = Some (RETRY_DELAY_BASE * 2 ^ (3 - 2) + 1000)
   \<and> delay_before 51 (snd (snd (retryWithBackoff (\<lambda>i. 1 - 1 / 2 ^ 52)
       (withTimeout (loadPosts_operation False) REQUEST_TIMEOUT ''Load Posts'') 51 unavailable_world)))
     = Some (RETRY_DELAY_BASE * 2 ^ (51 - 2) + 1024)"
proof -
  let ?op = "withTimeout (loadPosts_operation False) REQUEST_TIMEOUT ''Load Posts''"
  let ?rnd = "\<lambda>i::nat. 1 - 1 / 2 ^ 52 :: real"
  have d: "delay_before k (snd (snd (retryWithBackoff ?rnd ?op N unavailable_world)))
      = Some (js_plus (js_times RETRY_DELAY_BASE (Math_pow 2 (k - 2))) (js_times (1 - 1 / 2 ^ 52) 1000))"
    if "0 < N" "1 < k" "k \<le> N" for k N
  proof -
    have "N - Suc 0 = N - 1" by simp
    from retryFrom_all_fail[OF load_unavailable_always[of N False] that(1) this, of ?rnd None]
    show ?thesis using that(2,3) unfolding retryWithBackoff_def by auto
  qed
  have a: "js_plus (js_times RETRY_DELAY_BASE (Math_pow 2 (3 - 2))) (js_times (1 - 1 / 2 ^ 52) 1000)
      = RETRY_DELAY_BASE * 2 ^ (3 - 2) + 1000"
    by (simp add: js_plus_def js_times_def Math_pow_def RETRY_DELAY_BASE_def fl_eval)
  have b: "js_plus (js_times RETRY_DELAY_BASE (Math_pow 2 (51 - 2))) (js_times (1 - 1 / 2 ^ 52) 1000)
      = RETRY_DELAY_BASE * 2 ^ (51 - 2) + 1024"
    by (simp add: js_plus_def js_times_def Math_pow_def RETRY_DELAY_BASE_def fl_eval)
  show ?thesis using d[of 3 3] d[of 51 51] a b by simp
qed

theorem retryWithBackoff_attempts_and_delays_witness:
  "(\<exists>e w' evs.
      retryWithBackoff (\<lambda>i. 1 / 2) (withTimeout (loadPosts_operation False) REQUEST_TIMEOUT ''Load Posts'') 3
          unavailable_world = (Inl (Some e), w', evs)
      \<and> status e = Some 503
      \<and> invocations evs = [1, 2, 3]
      \<and> requests unavailable_world = []
      \<and> requests w' = [SelectAllPosts, SelectAllPosts, SelectAllPosts]
      \<and> (\<exists>d. delay_before 2 evs = Some d \<and> 1000 \<le> d \<and> d \<le> 2000)
      \<and> (\<exists>d. delay_before 3 evs = Some d \<and> 2000 \<le> d \<and> d \<le> 3000))
   \<and> retryWithBackoff (\<lambda>i. 1 / 2) (withTimeout (loadPosts_operation False) REQUEST_TIMEOUT ''Load Posts'') 3
          not_found_world
        = (Inl (Some \<lparr>status = Some 404, message = Some ''Not Found''\<rparr>),
           not_found_world\<lparr>requests := [SelectAllPosts]\<rparr>, [Invoke 1])"
proof -
  let ?rnd = "\<lambda>i::nat. 1 / 2 :: real"
  let ?op = "withTimeout (loadPosts_operation False) REQUEST_TIMEOUT ''Load Posts''"
  let ?w' = "snd (?op (attempt_state ?op (3 - 1) unavailable_world))"
  have n: "(1::nat) \<le> 3" by simp
  have rnd: "\<forall>i. 0 \<le> ?rnd i \<and> ?rnd i < 1" by simp
  have once: "?op not_found_world
        = (Inl \<lparr>status = Some 404, message = Some ''Not Found''\<rparr>, not_found_world\<lparr>requests := [SelectAllPosts]\<rparr>)
      \<and> \<not> isRetryableError (not_found_world\<lparr>requests := [SelectAllPosts]\<rparr>)
            \<lparr>status = Some 404, message = Some ''Not Found''\<rparr>"
    by (simp add: withTimeout_def loadPosts_operation_def remote_def not_found_world_def initial_world_def
          isRetryableError_def retryableStatusCodes_def retryableMessages_def
          toLowerCase_def lower_char_def is_upper_def)
  from retryWithBackoff_attempts_and_delays[OF n rnd, of ?op unavailable_world]
    load_unavailable_always[of 3 False]
  obtain e evs where
    r: "retryWithBackoff ?rnd ?op 3 unavailable_world = (Inl (Some e), ?w', evs)"
    and l: "fst (?op (attempt_state ?op (3 - 1) unavailable_world)) = Inl e"
    and i: "invocations evs = [1..<Suc 3]"
    and d: "\<forall>k. 1 < k \<and> k \<le> 3 \<longrightarrow>
                    (\<exists>r d. 0 \<le> r \<and> r < 1 \<and> delay_before k evs = Some d
                       \<and> d = js_plus (js_times RETRY_DELAY_BASE (Math_pow 2 (k - 2))) (js_times r 1000)
                       \<and> (RETRY_DELAY_BASE * 2 ^ (k - 2) + 1000 \<le> 2 ^ 53 \<longrightarrow>
                            RETRY_DELAY_BASE * 2 ^ (k - 2) \<le> d
                            \<and> d \<le> RETRY_DELAY_BASE * 2 ^ (k - 2) + 1000))"
    by blast
  have w': "?w' = unavailable_world\<lparr>randomCalls := 2, requests := [SelectAllPosts, SelectAllPosts, SelectAllPosts]\<rparr>"
    by (simp add: numeral_2_eq_2 Let_def withTimeout_def loadPosts_operation_def remote_def
          unavailable_world_def initial_world_def)
  have e: "status e = Some 503" using l w'
    by (auto simp: numeral_2_eq_2 Let_def withTimeout_def loadPosts_operation_def remote_def
          unavailable_world_def initial_world_def)
  have i': "invocations evs = [1, 2, 3]" using i by (simp add: upt_rec)
  have d2: "\<exists>d. delay_before 2 evs = Some d \<and> 1000 \<le> d \<and> d \<le> 2000"
    using d[rule_format, of 2] by (auto simp: RETRY_DELAY_BASE_def)
  have d3: "\<exists>d. delay_before 3 evs = Some d \<and> 2000 \<le> d \<and> d \<le> 3000"
    using d[rule_format, of 3] by (auto simp: RETRY_DELAY_BASE_def)
  have rq: "requests ?w' = [SelectAllPosts, SelectAllPosts, SelectAllPosts]" "requests unavailable_world = []"
    using w' by (simp_all add: unavailable_world_def initial_world_def)
  have first: "\<exists>e w' evs.
      retryWithBackoff ?rnd ?op 3 unavailable_world = (Inl (Some e), w', evs)
      \<and> status e = Some 503
      \<and> invocations evs = [1, 2, 3]
      \<and> requests unavailable_world = []
      \<and> requests w' = [SelectAllPosts, SelectAllPosts, SelectAllPosts]
      \<and> (\<exists>d. delay_before 2 evs = Some d \<and> 1000 \<le> d \<and> d \<le> 2000)
      \<and> (\<exists>d. delay_before 3 evs = Some d \<and> 2000 \<le> d \<and> d \<le> 3000)"
    using r e i' rq d2 d3 by blast
  have second: "retryWithBackoff ?rnd ?op 3 not_found_world
        = (Inl (Some \<lparr>status = Some 404, message = Some ''Not Found''\<rparr>),
           not_found_world\<lparr>requests := [SelectAllPosts]\<rparr>, [Invoke 1])"
    using retryWithBackoff_attempts_and_delays[OF n rnd, of ?op not_found_world] once by blast
  show ?thesis using first second by blast
qed

section \<open>Liking a post twice\<close>

lemmas cookie_eval = store_cookie_def is_ctl_def expires_at_once_def cookie_av_def delta_seconds_def
  is_digit_def trim_wsp_def is_wsp_def js_split.simps toLowerCase_def lower_char_def is_upper_def
  cookie_row_def Let_def

lemma cookieJar_set:
  "cookieJar (CookieManager_set n v COOKIE_MAX_AGE w)
     = store_cookie (n @ ''='' @ v @ ''; max-age=31536000; path=/'') (cookieJar w)"
  by (simp add: CookieManager_set_def document_cookie_assign_def show_max_age)

text \<open>
  A like of a post not yet flagged, on a service that acknowledges every call.
\<close>

lemma like_fresh:
  assumes "\<not> hasLiked p w" "backend w = (\<lambda>issued. Reply (DataLikes (Some 0)) None)"
  shows "likePost rnd p w
     = (Inr True,
        CookieManager_set (''liked_'' @ p) ''true'' COOKIE_MAX_AGE
          (updateLikeUI p 1 (w\<lparr>requests := requests w @ [SelectLikes p, UpdateLikes p 1]\<rparr>)),
        [Invoke 1])"
proof -
  let ?op = "withTimeout (likePost_operation p) REQUEST_TIMEOUT ''Like Post''"
  let ?w1 = "CookieManager_set (''liked_'' @ p) ''true'' COOKIE_MAX_AGE
          (updateLikeUI p 1 (w\<lparr>requests := requests w @ [SelectLikes p, UpdateLikes p 1]\<rparr>))"
  have "likePost_operation p w = (Resolved True, ?w1)"
    using assms by (simp add: likePost_operation_def remote_def)
  then have op: "?op w = (Inr True, ?w1)" by simp
  have "retryFrom rnd ?op MAX_RETRIES 1 None w = (Inr True, ?w1, [Invoke 1])"
    using op by (intro retryFrom_success[where operation = ?op and w = w]) (simp_all add: MAX_RETRIES_def)
  then show ?thesis
    by (simp add: likePost_def not_null_def safeOperation_def retryWithBackoff_def)
qed

lemma like_fresh_fields:
  assumes "\<not> hasLiked p w" "backend w = (\<lambda>issued. Reply (DataLikes (Some 0)) None)"
  shows "fst (likePost rnd p w) = Inr True"
    and "cookieJar (fst (snd (likePost rnd p w)))
          = store_cookie (''liked_'' @ p @ ''=true; max-age=31536000; path=/'') (cookieJar w)"
    and "requests (fst (snd (likePost rnd p w))) = requests w @ [SelectLikes p, UpdateLikes p 1]"
    and "backend (fst (snd (likePost rnd p w))) = backend w"
  unfolding like_fresh[OF assms] by (simp_all add: cookieJar_set)

text \<open>
  Claim C4 (the code departs from it).  The liked flag, once set by a successful like, is
  to make every later like of that post a no-op, so that a browser raises a post's count
  at most once; for the id \<open>42\<close> it does.  But \<open>CookieManager.set\<close> writes the id into the
  cookie string unencoded, and the flag is lost for an id with a semicolon or an equals
  sign.  For the id \<open>7;\<close> the browser cuts the string at the semicolon and stores a cookie
  without a name: the like succeeds, \<open>hasLiked\<close> stays false, and a second like is
  acknowledged as well.  A like of the id \<open>42=false\<close> overwrites the flag of post \<open>42\<close>,
  which can then be liked again.
\<close>

theorem likePost_unsafe_id_increments_twice:
  "fst (likePost (\<lambda>i. 0) ''7;'' generous_world) = Inr True
   \<and> \<not> hasLiked ''7;'' (likePosts (\<lambda>i. 0) [''7;''] generous_world)
   \<and> like_increments ''7;'' (likePosts (\<lambda>i. 0) [''7;'', ''7;''] generous_world) = 2
   \<and> hasLiked ''42'' (likePosts (\<lambda>i. 0) [''42''] generous_world)
   \<and> \<not> hasLiked ''42'' (likePosts (\<lambda>i. 0) [''42'', ''42=false''] generous_world)
   \<and> like_increments ''42'' (likePosts (\<lambda>i. 0) [''42'', ''42=false'', ''42''] generous_world) = 2
   \<and> like_increments ''42'' (likePosts (\<lambda>i. 0) [''42'', ''42''] generous_world) = 1"
proof -
  let ?b = "\<lambda>issued :: request list. Reply (DataLikes (Some 0)) None"
  let ?rnd = "\<lambda>i::nat. 0::real"
  have n0: "\<not> hasLiked p generous_world" for p
    by (simp add: hasLiked_def CookieManager_get_def document_cookie_def js_split.simps)
  define u1 where "u1 = fst (snd (likePost ?rnd ''7;'' generous_world))"
  have u1: "cookieJar u1 = [([], ''liked_7'')]" "requests u1 = [SelectLikes ''7;'', UpdateLikes ''7;'' 1]"
    "backend u1 = ?b"
    unfolding u1_def using like_fresh_fields(2-4)[OF n0[of "''7;''"], of ?rnd]
    by (simp_all add: cookie_eval)
  have r1: "fst (likePost ?rnd ''7;'' generous_world) = Inr True"
    using like_fresh_fields(1)[OF n0[of "''7;''"], of ?rnd] by simp
  have nl1: "\<not> hasLiked ''7;'' u1"
    by (simp add: hasLiked_def CookieManager_get_def document_cookie_def u1 cookie_eval)
  define u2 where "u2 = fst (snd (likePost ?rnd ''7;'' u1))"
  have u2: "requests u2 = [SelectLikes ''7;'', UpdateLikes ''7;'' 1, SelectLikes ''7;'', UpdateLikes ''7;'' 1]"
    "backend u2 = ?b"
    unfolding u2_def using like_fresh_fields(3,4)[OF nl1 u1(3), of ?rnd] u1 by simp_all
  have i0: "increments ?b q [] = 0" for q by (simp add: increments_def)
  have inc7: "like_increments ''7;'' u2 = 2"
    unfolding like_increments_def u2
    using increments_select_update[of ?b "''7;''" "[]" "''7;''" "''7;''" 1]
      increments_select_update[of ?b "''7;''" "[SelectLikes ''7;'', UpdateLikes ''7;'' 1]" "''7;''" "''7;''" 1]
    by (simp add: i0)
  define v1 where "v1 = fst (snd (likePost ?rnd ''42'' generous_world))"
  have v1: "cookieJar v1 = [(''liked_42'', ''true'')]" "requests v1 = [SelectLikes ''42'', UpdateLikes ''42'' 1]"
    "backend v1 = ?b"
    unfolding v1_def using like_fresh_fields(2-4)[OF n0[of "''42''"], of ?rnd]
    by (simp_all add: cookie_eval)
  have l1: "hasLiked ''42'' v1"
    by (simp add: hasLiked_def CookieManager_get_def document_cookie_def v1 cookie_eval)
  have nl2: "\<not> hasLiked ''42=false'' v1"
    by (simp add: hasLiked_def CookieManager_get_def document_cookie_def v1 cookie_eval)
  have again: "fst (snd (likePost ?rnd ''42'' v1)) = v1"
    using likePost_liked[OF l1, of ?rnd] by simp
  have inc1: "like_increments ''42'' v1 = 1"
    unfolding like_increments_def v1
    using increments_select_update[of ?b "''42''" "[]" "''42''" "''42''" 1]
    by (simp add: i0)
  define v2 where "v2 = fst (snd (likePost ?rnd ''42=false'' v1))"
  have v2: "cookieJar v2 = [(''liked_42'', ''false=true'')]"
    "requests v2 = [SelectLikes ''42'', UpdateLikes ''42'' 1, SelectLikes ''42=false'', UpdateLikes ''42=false'' 1]"
    "backend v2 = ?b"
    unfolding v2_def using like_fresh_fields(2-4)[OF nl2 v1(3), of ?rnd] v1
    by (simp_all add: cookie_eval)
  have nl3: "\<not> hasLiked ''42'' v2"
    by (simp add: hasLiked_def CookieManager_get_def document_cookie_def v2 cookie_eval)
  define v3 where "v3 = fst (snd (likePost ?rnd ''42'' v2))"
  have v3: "requests v3 = [SelectLikes ''42'', UpdateLikes ''42'' 1, SelectLikes ''42=false'', UpdateLikes ''42=false'' 1,
        SelectLikes ''42'', UpdateLikes ''42'' 1]"
    "backend v3 = ?b"
    unfolding v3_def using like_fresh_fields(3,4)[OF nl3 v2(3), of ?rnd] v2 by simp_all
  have inc42: "like_increments ''42'' v3 = 2"
    unfolding like_increments_def v3
    using increments_select_update[of ?b "''42''" "[]" "''42''" "''42''" 1]
      increments_select_update[of ?b "''42''" "[SelectLikes ''42'', UpdateLikes ''42'' 1]" "''42=false''" "''42=false''" 1]
      increments_select_update[of ?b "''42''" "[SelectLikes ''42'', UpdateLikes ''42'' 1, SelectLikes ''42=false'', UpdateLikes ''42=false'' 1]" "''42''" "''42''" 1]
    by (simp add: i0)
  show ?thesis
    using r1 nl1 inc7 l1 nl3 inc42 inc1 again
    by (simp add: u1_def u2_def v1_def v2_def v3_def)
qed

end
